theory Spec2Isabelle
  imports Main "HOL-Library.Sublist" "HOL-Library.Multiset"
begin

section \<open>Python text\<close>

text \<open>
  A Python \<open>str\<close> is a sequence of Unicode code points. A code point below 256 is
  \<open>Latin c\<close>, with \<open>c\<close> the character of that code; \<open>Beyond n\<close> is the code point
  \<open>256 + n\<close>. The literals of the source are all below 256 (\<open>lit\<close>); the only non-ASCII
  letter of the static tables, U+00EB, is \<open>CHR 0xEB\<close>. The substring test \<open>a in b\<close> on
  strings is \<^const>\<open>sublist\<close>.
\<close>

datatype cp = Latin char | Beyond nat

type_synonym ustr = "cp list"

definition lit :: "string \<Rightarrow> ustr" where
  "lit s = map Latin s"

text \<open>
  The interpreter's Unicode database is not part of the repository. What \<open>str.lower\<close> and
  the word class of \<open>re\<close> do below 256 is tabulated further down; what they do beyond is
  taken as a parameter: \<open>lower_beyond before n after\<close> is what \<open>str.lower\<close> puts for the
  code point \<open>256 + n\<close> standing between \<open>before\<close> and \<open>after\<close> (one to three code points,
  and for the capital sigma it depends on the neighbours), and \<open>word_beyond n\<close> tells
  whether \<open>256 + n\<close> is a word character.
\<close>

record unicode =
  lower_beyond :: "ustr \<Rightarrow> nat \<Rightarrow> ustr \<Rightarrow> ustr"
  word_beyond :: "nat \<Rightarrow> bool"

text \<open>
  A database with no cased letter and no word character beyond 256, to run the
  definitions on texts whose other code points are punctuation or currency signs.
\<close>

definition plain_beyond :: unicode where
  "plain_beyond = \<lparr> lower_beyond = (\<lambda>before n after. [Beyond n]), word_beyond = (\<lambda>n. False) \<rparr>"

section \<open>Exceptions, sets and sorting\<close>

datatype exn =
    KeyError string
  | AttributeError string
  | TypeError string
  | Failure string

text \<open>Sequencing of fallible steps: the first exception raised ends the computation.\<close>

definition py_bind :: "exn + 'a \<Rightarrow> ('a \<Rightarrow> exn + 'b) \<Rightarrow> exn + 'b" where
  "py_bind m f = (case m of Inl e \<Rightarrow> Inl e | Inr x \<Rightarrow> f x)"

text \<open>
  A Python \<open>set\<close> is modelled by the list of its elements in enumeration order.
  The repository leaves that order to the interpreter (it depends on the hash seed): the
  functions below take it as the parameter \<open>ord\<close>, which turns the sequence of insertions
  into the enumeration of the resulting set.
\<close>

definition set_order_ok :: "('a list \<Rightarrow> 'a list) \<Rightarrow> bool" where
  "set_order_ok ord \<longleftrightarrow> (\<forall>xs. set (ord xs) = set xs \<and> distinct (ord xs))"

text \<open>\<open>list(dict.fromkeys(xs))\<close>: the first occurrence of each element, in order.\<close>

fun fromkeys :: "'a list \<Rightarrow> 'a list \<Rightarrow> 'a list" where
  "fromkeys seen [] = []"
| "fromkeys seen (x # xs) =
     (if x \<in> set seen then fromkeys seen xs else x # fromkeys (x # seen) xs)"

text \<open>One admissible order: a set enumerates its elements as they were first inserted.\<close>

definition first_seen :: "'a list \<Rightarrow> 'a list" where
  "first_seen xs = fromkeys [] xs"

text \<open>
  \<open>sorted(xs, key=k, reverse=True)\<close> and \<open>xs.sort(key=k, reverse=True)\<close>: descending in the
  key, and stable (elements with equal keys keep their order).
\<close>

definition py_sorted_desc :: "('a \<Rightarrow> int) \<Rightarrow> 'a list \<Rightarrow> 'a list" where
  "py_sorted_desc k xs = sort_key (\<lambda>x. - k x) xs"

section \<open>\<open>woo_connector.py\<close>\<close>

subsection \<open>Static tables\<close>

definition WOO_CATEGORIES :: "(string \<times> string) list" where
  "WOO_CATEGORIES =
    [(''1a'', ''Convenanten''),
     (''1b'', ''Jaarplannen en jaarverslagen''),
     (''1c'', ''Onderzoeksrapporten''),
     (''1d'', ''Adviezen van adviescolleges''),
     (''1e'', ''Beschikkingen over aanvragen om een subsidie''),
     (''1f'', ''Beschikkingen Wob-verzoeken''),
     (''1g'', ''Beschikkingen Woo-verzoeken''),
     (''2'', ''Vergaderstukken bestuursorganen''),
     (''3'', ''Bestuurlijke besluiten''),
     (''4'', ''Regelingen en beleidsnota'' @ [CHR 0x27] @ ''s'')]"

definition financien :: string where
  "financien = ''financi'' @ [CHR 0xEB] @ ''n''"

definition TOPIC_MAPPING :: "(string \<times> string list) list" where
  "TOPIC_MAPPING =
    [(''afval'', [''milieu'', ''openbare ruimte'', ''beheer'', ''huisvesting'']),
     (''parkeren'', [''verkeer'', ''mobiliteit'', ''openbare ruimte'', ''handhaving'']),
     (''verkeer'', [''mobiliteit'', ''infrastructuur'', ''veiligheid'', ''openbare ruimte'']),
     (''bus'', [''openbaar vervoer'', ''mobiliteit'', ''infrastructuur'']),
     (''fiets'', [''mobiliteit'', ''infrastructuur'', ''openbare ruimte'']),
     (''straat'', [''openbare ruimte'', ''beheer'', ''infrastructuur'']),
     (''woning'', [''huisvesting'', ''ruimtelijke ordening'', ''bouw'']),
     (''bouw'', [''ruimtelijke ordening'', ''vergunningen'', ''handhaving'']),
     (''jeugd'', [''jeugdzorg'', ''welzijn'', ''onderwijs'', ''zorg'']),
     (''zorg'', [''gezondheidszorg'', ''welzijn'', ''sociaal domein'']),
     (''onderwijs'', [''educatie'', ''jeugd'', ''cultuur'']),
     (''werk'', [''arbeidsmarkt'', ''economie'', ''sociale zaken'']),
     (''milieu'', [''duurzaamheid'', ''klimaat'', ''natuur'']),
     (''energie'', [''duurzaamheid'', ''klimaat'', ''milieu'']),
     (''water'', [''waterbeheer'', ''milieu'', ''infrastructuur'']),
     (''groen'', [''natuur'', ''openbare ruimte'', ''milieu'']),
     (''veiligheid'', [''openbare orde'', ''handhaving'', ''politie'']),
     (''criminaliteit'', [''veiligheid'', ''politie'', ''handhaving'']),
     (''overlast'', [''openbare orde'', ''handhaving'', ''veiligheid'']),
     (''subsidie'', [financien, ''beleid'', ''ondersteuning'']),
     (''beleid'', [''bestuur'', ''regelgeving'', ''strategie'']),
     (financien, [''begroting'', ''subsidie'', ''economie'']),
     (''vergunning'', [''handhaving'', ''regelgeving'', ''bouw''])]"

definition UTRECHT_WOO_URL :: string where
  "UTRECHT_WOO_URL = ''https://organisaties.overheid.nl/woo/nl.oorg.gemutrecht_gemeente''"

subsection \<open>\<open>extract_keywords\<close>\<close>

text \<open>\<open>str.lower\<close> and the word characters of \<open>re\<close>, tabulated on the code points below 256.\<close>

definition lower_char :: "char \<Rightarrow> char" where
  "lower_char c =
     (let n = (of_char c :: nat)
      in if (65 \<le> n \<and> n \<le> 90) \<or> (192 \<le> n \<and> n \<le> 222 \<and> n \<noteq> 215) then char_of (n + 32) else c)"

definition is_word_char :: "char \<Rightarrow> bool" where
  "is_word_char c =
     (let n = (of_char c :: nat)
      in (48 \<le> n \<and> n \<le> 57) \<or> (65 \<le> n \<and> n \<le> 90) \<or> n = 95 \<or> (97 \<le> n \<and> n \<le> 122) \<or>
         n = 170 \<or> n = 178 \<or> n = 179 \<or> n = 181 \<or> n = 185 \<or> n = 186 \<or>
         (188 \<le> n \<and> n \<le> 190) \<or> (192 \<le> n \<and> n \<le> 214) \<or> (216 \<le> n \<and> n \<le> 246) \<or>
         (248 \<le> n \<and> n \<le> 255))"

text \<open>
  \<open>text.lower()\<close> goes through the text from the left; each code point is replaced by its
  lowercase, which for a code point beyond 256 may be several code points and may depend
  on what stands before and after it.
\<close>

fun lower_from :: "unicode \<Rightarrow> ustr \<Rightarrow> ustr \<Rightarrow> ustr" where
  "lower_from U before [] = []"
| "lower_from U before (Latin c # rest) =
     Latin (lower_char c) # lower_from U (before @ [Latin c]) rest"
| "lower_from U before (Beyond n # rest) =
     lower_beyond U before n rest @ lower_from U (before @ [Beyond n]) rest"

definition lower :: "unicode \<Rightarrow> ustr \<Rightarrow> ustr" where
  "lower U s = lower_from U [] s"

fun is_word :: "unicode \<Rightarrow> cp \<Rightarrow> bool" where
  "is_word U (Latin c) = is_word_char c"
| "is_word U (Beyond n) = word_beyond U n"

text \<open>
  \<open>re.findall\<close> with the pattern of whole words (a word boundary, one or more word
  characters, a word boundary): scanning from the left, a match starts at a word character
  with no word character before it and takes the whole run.
\<close>

function findall_words :: "unicode \<Rightarrow> ustr \<Rightarrow> ustr list" where
  "findall_words U [] = []"
| "findall_words U (c # cs) =
     (if is_word U c
      then (c # takeWhile (is_word U) cs) # findall_words U (dropWhile (is_word U) cs)
      else findall_words U cs)"
  by pat_completeness auto
termination
  by (relation "measure (\<lambda>(U, s). length s)") (auto simp: length_dropWhile_le less_Suc_eq_le)

definition stopwords :: "string list" where
  "stopwords =
    [''de'', ''het'', ''een'', ''van'', ''in'', ''op'', ''voor'', ''met'', ''aan'',
     ''uit'', ''en'', ''of'', ''maar'', ''is'', ''zijn'', ''was'', ''waren'',
     ''deze'', ''dit'', ''die'', ''dat'', ''door'', ''naar'', ''bij'', ''om'',
     ''te'', ''tot'', ''over'', ''onder'', ''tussen'', ''na'', ''als'', ''dan'']"

text \<open>The argument is \<open>None\<close> when the text is absent.\<close>

definition extract_keywords ::
    "unicode \<Rightarrow> (ustr list \<Rightarrow> ustr list) \<Rightarrow> ustr option \<Rightarrow> ustr list" where
  "extract_keywords U ord text =
     (case text of
        None \<Rightarrow> []
      | Some t \<Rightarrow>
          if t = [] then []
          else ord
                 (filter (\<lambda>w. length w > 3 \<and> w \<notin> set (map lit stopwords))
                    (findall_words U (lower U t))))"

subsection \<open>\<open>map_to_topics\<close>\<close>

definition map_to_topics :: "(string list \<Rightarrow> string list) \<Rightarrow> string list \<Rightarrow> string list" where
  "map_to_topics ord keywords =
     ord
       (concat (map (\<lambda>keyword.
          concat (map snd (filter (\<lambda>(key, topic_list). sublist key keyword \<or> sublist keyword key)
                             TOPIC_MAPPING)))
          keywords))"

subsection \<open>\<open>_suggest_woo_categories\<close>\<close>

record suggestion =
  category :: string
  name :: string
  reason :: string

definition category_keywords :: "(string \<times> string list) list" where
  "category_keywords =
    [(''1a'', [''convenant'', ''overeenkomst'', ''samenwerkings'']),
     (''1b'', [''jaarplan'', ''jaarverslag'', ''begroting'']),
     (''1c'', [''onderzoek'', ''rapport'', ''evaluatie'', ''studie'']),
     (''1d'', [''advies'', ''aanbeveling'', ''commissie'']),
     (''1e'', [''subsidie'', ''financiering'', ''ondersteuning'']),
     (''1f'', [''wob'', ''openbaarmaking'']),
     (''1g'', [''woo'', ''openbaarmaking'']),
     (''2'', [''vergader'', ''raad'', ''commissie'', ''besluit'']),
     (''3'', [''besluit'', ''beschikking'', ''verordening'']),
     (''4'', [''beleid'', ''regeling'', ''verordening'', ''nota''])]"

text \<open>\<open>self.WOO_CATEGORIES[cat_id]\<close>\<close>

definition woo_category_name :: "string \<Rightarrow> exn + string" where
  "woo_category_name cat_id =
     (case map_of WOO_CATEGORIES cat_id of None \<Rightarrow> Inl (KeyError cat_id) | Some n \<Rightarrow> Inr n)"

text \<open>
  The keyword loop: for each category in table order, the first keyword of the enumeration
  that contains one of the category's triggers gives a suggestion, and the \<open>break\<close> leaves
  the other keywords alone.
\<close>

fun keyword_pass :: "(string \<times> string list) list \<Rightarrow> string list \<Rightarrow> exn + suggestion list" where
  "keyword_pass [] keywords = Inr []"
| "keyword_pass ((cat_id, cat_keywords) # rest) keywords =
     (case find (\<lambda>kw. list_ex (\<lambda>ck. sublist ck kw) cat_keywords) keywords of
        None \<Rightarrow> keyword_pass rest keywords
      | Some kw \<Rightarrow>
          (case woo_category_name cat_id of
             Inl e \<Rightarrow> Inl e
           | Inr nm \<Rightarrow>
               (case keyword_pass rest keywords of
                  Inl e \<Rightarrow> Inl e
                | Inr ss \<Rightarrow>
                    Inr (\<lparr>category = cat_id, name = nm, reason = ''Bevat keyword: '' @ kw\<rparr> # ss))))"

definition topic_rule :: "string list \<Rightarrow> string list \<Rightarrow> string \<Rightarrow> string \<Rightarrow> exn + suggestion list" where
  "topic_rule topics anchors cat_id why =
     (if list_ex (\<lambda>t. t \<in> set topics) anchors
      then py_bind (woo_category_name cat_id) (\<lambda>nm.
             Inr [\<lparr>category = cat_id, name = nm, reason = why\<rparr>])
      else Inr [])"

definition topic_pass :: "string list \<Rightarrow> exn + suggestion list" where
  "topic_pass topics =
     py_bind (topic_rule topics [''beleid'', ''regelgeving'', ''bestuur''] ''4''
                ''Gerelateerd aan beleid en regelgeving'') (\<lambda>a.
     py_bind (topic_rule topics [''subsidie'', financien] ''1e''
                ''Gerelateerd aan subsidies'') (\<lambda>b.
       Inr (a @ b)))"

text \<open>The last loop: a suggestion is kept when its category has not been seen.\<close>

fun unique_suggestions :: "string list \<Rightarrow> suggestion list \<Rightarrow> suggestion list" where
  "unique_suggestions seen [] = []"
| "unique_suggestions seen (s # ss) =
     (if category s \<in> set seen then unique_suggestions seen ss
      else s # unique_suggestions (category s # seen) ss)"

definition suggest_woo_categories :: "string list \<Rightarrow> string list \<Rightarrow> exn + suggestion list" where
  "suggest_woo_categories keywords topics =
     py_bind (keyword_pass category_keywords keywords) (\<lambda>a.
     py_bind (topic_pass topics) (\<lambda>b.
       Inr (unique_suggestions [] (a @ b))))"

subsection \<open>\<open>_generate_search_terms\<close>\<close>

definition generate_search_terms :: "'a list list \<Rightarrow> 'a list list \<Rightarrow> 'a list list" where
  "generate_search_terms keywords topics =
     fromkeys [] (take 5 (py_sorted_desc (\<lambda>k. int (length k)) keywords) @ take 3 topics)"

section \<open>What the specification says, in its own words\<close>

text \<open>
  A word token of a text: a non-empty run of word characters that is maximal, that is, with
  no word character just before it and none just after it.
\<close>

definition word_token :: "unicode \<Rightarrow> ustr \<Rightarrow> ustr \<Rightarrow> bool" where
  "word_token U s w \<longleftrightarrow>
     w \<noteq> [] \<and> (\<forall>c\<in>set w. is_word U c) \<and>
     (\<exists>pre post. s = pre @ w @ post \<and>
        (pre = [] \<or> \<not> is_word U (last pre)) \<and> (post = [] \<or> \<not> is_word U (hd post)))"

text \<open>
  De-duplication that preserves first-occurrence order: the elements of a list that do not
  occur at an earlier position, in the order of their positions.
\<close>

definition first_occurrences :: "'a list \<Rightarrow> 'a list" where
  "first_occurrences xs =
     map (\<lambda>i. xs ! i) (filter (\<lambda>i. xs ! i \<notin> set (take i xs)) [0..<length xs])"


section \<open>JSON values\<close>

text \<open>
  JSON values as \<open>json.loads\<close> builds them, without floating point numbers. A \<open>dict\<close> is
  the list of its items in insertion order, and looking a key up is \<^const>\<open>map_of\<close>.
\<close>

datatype json =
    JNull
  | JBool bool
  | JInt int
  | JStr ustr
  | JList "json list"
  | JObj "(ustr \<times> json) list"

text \<open>Truthiness, as \<open>not x\<close> and \<open>x or y\<close> test it.\<close>

fun truthy :: "json \<Rightarrow> bool" where
  "truthy JNull = False"
| "truthy (JBool b) = b"
| "truthy (JInt n) = (n \<noteq> 0)"
| "truthy (JStr s) = (s \<noteq> [])"
| "truthy (JList xs) = (xs \<noteq> [])"
| "truthy (JObj kvs) = (kvs \<noteq> [])"

text \<open>\<open>d.get(key)\<close> on a \<open>dict\<close>: \<open>None\<close> when the key is absent.\<close>

definition dict_get :: "(ustr \<times> json) list \<Rightarrow> ustr \<Rightarrow> json" where
  "dict_get d k = (case map_of d k of None \<Rightarrow> JNull | Some v \<Rightarrow> v)"

section \<open>Attribute resolvers\<close>

text \<open>
  \<open>MCPServer.get_attr\<close> of \<open>mcp_server.py\<close>, on a \<open>dict\<close> as its annotation says: four
  membership tests in order, and \<open>None\<close> at the end.
\<close>

definition get_attr :: "(ustr \<times> json) list \<Rightarrow> ustr \<Rightarrow> json" where
  "get_attr obj key =
     (case map_of obj (lit ''dct:'' @ key) of
        Some v \<Rightarrow> v
      | None \<Rightarrow>
     (case map_of obj (lit ''dcat:'' @ key) of
        Some v \<Rightarrow> v
      | None \<Rightarrow>
     (case map_of obj (lit ''foaf:'' @ key) of
        Some v \<Rightarrow> v
      | None \<Rightarrow>
     (case map_of obj key of
        Some v \<Rightarrow> v
      | None \<Rightarrow> JNull))))"

text \<open>
  \<open>WooConnector._get_attr\<close> of \<open>woo_connector.py\<close>:
  \<open>obj.get("dct:" + key) or obj.get("dcat:" + key) or obj.get(key)\<close>. Each \<open>or\<close> goes on to
  its right operand when the left one is falsy, and the last lookup is returned as it is.
\<close>

definition woo_get_attr :: "(ustr \<times> json) list \<Rightarrow> ustr \<Rightarrow> json" where
  "woo_get_attr obj key =
     (let a = dict_get obj (lit ''dct:'' @ key)
      in if truthy a then a
         else let b = dict_get obj (lit ''dcat:'' @ key)
              in if truthy b then b else dict_get obj key)"

text \<open>The resolver of the specification: the candidate keys in priority order.\<close>

definition candidate_keys :: "ustr \<Rightarrow> ustr list" where
  "candidate_keys key = [lit ''dct:'' @ key, lit ''dcat:'' @ key, lit ''foaf:'' @ key, key]"

definition resolve :: "(ustr \<times> json) list \<Rightarrow> ustr \<Rightarrow> json option" where
  "resolve record key =
     (case find (\<lambda>k. k \<in> dom (map_of record)) (candidate_keys key) of
        None \<Rightarrow> None
      | Some k \<Rightarrow> map_of record k)"

section \<open>\<open>mcp_server.py\<close>: request dispatch\<close>

text \<open>
  An exception is caught by \<open>except Exception as e\<close> and only \<open>str(e)\<close> is used: a raised
  exception is modelled by that string, \<open>Inl\<close> of a sum. The \<open>KeyError\<close> of a missing
  identifier key prints the key between single quotes.
\<close>

type_synonym 'a raising = "ustr + 'a"

definition key_error :: "ustr \<Rightarrow> ustr" where
  "key_error k = [Latin (CHR 0x27)] @ k @ [Latin (CHR 0x27)]"

text \<open>
  What the interpreter does with a JSON value and the model leaves open: the text that
  \<open>str\<close> gives for it, and the messages of the exceptions raised when a value that is
  no \<open>dict\<close> is asked for \<open>.get\<close> or subscripted with a string, and when \<open>' '.join\<close> is
  applied to a value that is no iterable of strings.
\<close>

record interp =
  str_of :: "json \<Rightarrow> ustr"
  no_get_msg :: "json \<Rightarrow> ustr"
  no_subscript_msg :: "json \<Rightarrow> ustr"
  no_join_msg :: "json \<Rightarrow> ustr"

text \<open>
  What lies outside the server: the interpreter, the reading of the datasets resource,
  and the ten tool handlers, which go to the network and return a text or raise.
\<close>

record world = interp +
  datasets_json :: "ustr raising"
  search_datasets :: "json \<Rightarrow> json \<Rightarrow> ustr raising"
  get_dataset :: "json \<Rightarrow> ustr raising"
  get_distributions :: "json \<Rightarrow> ustr raising"
  list_all_datasets :: "ustr raising"
  analyze_woo_connection :: "json \<Rightarrow> ustr raising"
  find_woo_related_datasets :: "json \<Rightarrow> ustr raising"
  dataoverheid_search :: "json \<Rightarrow> json \<Rightarrow> json \<Rightarrow> json \<Rightarrow> ustr raising"
  dataoverheid_get_dataset :: "json \<Rightarrow> ustr raising"
  dataoverheid_list_organizations :: "json \<Rightarrow> ustr raising"
  dataoverheid_get_organization :: "json \<Rightarrow> json \<Rightarrow> ustr raising"

definition raise_bind :: "'a raising \<Rightarrow> ('a \<Rightarrow> 'b raising) \<Rightarrow> 'b raising" where
  "raise_bind m f = (case m of Inl e \<Rightarrow> Inl e | Inr x \<Rightarrow> f x)"

text \<open>\<open>v.get(key, default)\<close> and \<open>v[key]\<close> on any JSON value.\<close>

definition py_get :: "'a interp_scheme \<Rightarrow> json \<Rightarrow> ustr \<Rightarrow> json \<Rightarrow> json raising" where
  "py_get W v k d =
     (case v of
        JObj kvs \<Rightarrow> Inr (case map_of kvs k of None \<Rightarrow> d | Some x \<Rightarrow> x)
      | _ \<Rightarrow> Inl (no_get_msg W v))"

definition py_getitem :: "'a interp_scheme \<Rightarrow> json \<Rightarrow> ustr \<Rightarrow> json raising" where
  "py_getitem W v k =
     (case v of
        JObj kvs \<Rightarrow> (case map_of kvs k of None \<Rightarrow> Inl (key_error k) | Some x \<Rightarrow> Inr x)
      | _ \<Rightarrow> Inl (no_subscript_msg W v))"

text \<open>
  The responses. Of the tool catalogue only the name and the required arguments of each
  tool are kept, of the other results only their kind and text.
\<close>

datatype result =
    InitializeResult
  | ToolsList "(string \<times> string list) list"
  | ToolContent ustr
  | ResourcesList
  | ResourceContents json ustr

datatype response =
    Success json result
  | Error json int ustr

definition error_response :: "json \<Rightarrow> int \<Rightarrow> ustr \<Rightarrow> response" where
  "error_response request_id code message = Error request_id code message"

definition tool_catalog :: "(string \<times> string list) list" where
  "tool_catalog =
    [(''search_datasets'', []),
     (''get_dataset'', [''dataset_id'']),
     (''get_distributions'', [''dataset_id'']),
     (''list_all_datasets'', []),
     (''analyze_woo_connection'', [''dataset_id'']),
     (''find_woo_related_datasets'', [''topic'']),
     (''dataoverheid_search'', []),
     (''dataoverheid_get_dataset'', [''dataset_id'']),
     (''dataoverheid_list_organizations'', []),
     (''dataoverheid_get_organization'', [''org_id''])]"

definition list_tools :: "json \<Rightarrow> response" where
  "list_tools request_id = Success request_id (ToolsList tool_catalog)"

definition initialize :: "json \<Rightarrow> json \<Rightarrow> response" where
  "initialize request_id params = Success request_id InitializeResult"

definition list_resources :: "json \<Rightarrow> response" where
  "list_resources request_id = Success request_id ResourcesList"

text \<open>The body of the \<open>try\<close> of \<open>call_tool\<close>: the chain of comparisons with the tool names.\<close>

definition run_tool :: "world \<Rightarrow> json \<Rightarrow> json \<Rightarrow> json \<Rightarrow> response raising" where
  "run_tool W request_id tool_name arguments =
     (let done = (\<lambda>text. Inr (Success request_id (ToolContent text)))
      in
      if tool_name = JStr (lit ''search_datasets'') then
        raise_bind (py_get W arguments (lit ''query'') JNull) (\<lambda>q.
        raise_bind (py_get W arguments (lit ''limit'') (JInt 20)) (\<lambda>l.
        raise_bind (search_datasets W q l) done))
      else if tool_name = JStr (lit ''get_dataset'') then
        raise_bind (py_getitem W arguments (lit ''dataset_id'')) (\<lambda>d.
        raise_bind (get_dataset W d) done)
      else if tool_name = JStr (lit ''get_distributions'') then
        raise_bind (py_getitem W arguments (lit ''dataset_id'')) (\<lambda>d.
        raise_bind (get_distributions W d) done)
      else if tool_name = JStr (lit ''list_all_datasets'') then
        raise_bind (list_all_datasets W) done
      else if tool_name = JStr (lit ''analyze_woo_connection'') then
        raise_bind (py_getitem W arguments (lit ''dataset_id'')) (\<lambda>d.
        raise_bind (analyze_woo_connection W d) done)
      else if tool_name = JStr (lit ''find_woo_related_datasets'') then
        raise_bind (py_getitem W arguments (lit ''topic'')) (\<lambda>t.
        raise_bind (find_woo_related_datasets W t) done)
      else if tool_name = JStr (lit ''dataoverheid_search'') then
        raise_bind (py_get W arguments (lit ''query'') JNull) (\<lambda>q.
        raise_bind (py_get W arguments (lit ''organization'') JNull) (\<lambda>org.
        raise_bind (py_get W arguments (lit ''tags'') JNull) (\<lambda>tags.
        raise_bind (py_get W arguments (lit ''limit'') (JInt 20)) (\<lambda>l.
        raise_bind (dataoverheid_search W q org tags l) done))))
      else if tool_name = JStr (lit ''dataoverheid_get_dataset'') then
        raise_bind (py_getitem W arguments (lit ''dataset_id'')) (\<lambda>d.
        raise_bind (dataoverheid_get_dataset W d) done)
      else if tool_name = JStr (lit ''dataoverheid_list_organizations'') then
        raise_bind (py_get W arguments (lit ''limit'') (JInt 50)) (\<lambda>l.
        raise_bind (dataoverheid_list_organizations W l) done)
      else if tool_name = JStr (lit ''dataoverheid_get_organization'') then
        raise_bind (py_getitem W arguments (lit ''org_id'')) (\<lambda>org.
        raise_bind (py_get W arguments (lit ''include_datasets'') (JBool False)) (\<lambda>inc.
        raise_bind (dataoverheid_get_organization W org inc) done))
      else
        Inr (error_response request_id (-32602) (lit ''Unknown tool: '' @ str_of W tool_name)))"

text \<open>
  \<open>call_tool\<close>: the two lookups in \<open>params\<close> stand before the \<open>try\<close>, so what they raise
  leaves the function; what the body raises becomes the error \<open>-32603\<close>.
\<close>

definition call_tool :: "world \<Rightarrow> json \<Rightarrow> json \<Rightarrow> response raising" where
  "call_tool W request_id params =
     raise_bind (py_get W params (lit ''name'') JNull) (\<lambda>tool_name.
     raise_bind (py_get W params (lit ''arguments'') (JObj [])) (\<lambda>arguments.
       case run_tool W request_id tool_name arguments of
         Inr r \<Rightarrow> Inr r
       | Inl e \<Rightarrow> Inr (error_response request_id (-32603) (lit ''Tool execution failed: '' @ e))))"

definition read_resource :: "world \<Rightarrow> json \<Rightarrow> json \<Rightarrow> response raising" where
  "read_resource W request_id params =
     raise_bind (py_get W params (lit ''uri'') JNull) (\<lambda>uri.
       if uri = JStr (lit ''utrecht://datasets'')
       then raise_bind (datasets_json W) (\<lambda>text.
              Inr (Success request_id (ResourceContents uri text)))
       else Inr (error_response request_id (-32602) (lit ''Unknown resource: '' @ str_of W uri)))"

text \<open>
  \<open>handle_request\<close>: the three lookups in the request stand before the \<open>try\<close>; inside
  it, the chain of comparisons with the method names, and every exception becomes the
  error \<open>-32603\<close>.
\<close>

definition dispatch :: "world \<Rightarrow> json \<Rightarrow> json \<Rightarrow> json \<Rightarrow> response raising" where
  "dispatch W method params request_id =
     (if method = JStr (lit ''initialize'') then Inr (initialize request_id params)
      else if method = JStr (lit ''tools/list'') then Inr (list_tools request_id)
      else if method = JStr (lit ''tools/call'') then call_tool W request_id params
      else if method = JStr (lit ''resources/list'') then Inr (list_resources request_id)
      else if method = JStr (lit ''resources/read'') then read_resource W request_id params
      else Inr (error_response request_id (-32601) (lit ''Method not found: '' @ str_of W method)))"

definition handle_request :: "world \<Rightarrow> json \<Rightarrow> response raising" where
  "handle_request W request =
     raise_bind (py_get W request (lit ''method'') JNull) (\<lambda>method.
     raise_bind (py_get W request (lit ''params'') (JObj [])) (\<lambda>params.
     raise_bind (py_get W request (lit ''id'') JNull) (\<lambda>request_id.
       case dispatch W method params request_id of
         Inr r \<Rightarrow> Inr r
       | Inl e \<Rightarrow> Inr (error_response request_id (-32603) e))))"

text \<open>The method names and the tool names of the specification, and the parts of a request.\<close>

definition method_names :: "string list" where
  "method_names = [''initialize'', ''tools/list'', ''tools/call'', ''resources/list'', ''resources/read'']"

definition field :: "(ustr \<times> json) list \<Rightarrow> string \<Rightarrow> json \<Rightarrow> json" where
  "field d k dflt = (case map_of d (lit k) of None \<Rightarrow> dflt | Some v \<Rightarrow> v)"

definition method_of :: "(ustr \<times> json) list \<Rightarrow> json" where
  "method_of req = field req ''method'' JNull"

definition params_of :: "(ustr \<times> json) list \<Rightarrow> json" where
  "params_of req = field req ''params'' (JObj [])"

definition id_of :: "(ustr \<times> json) list \<Rightarrow> json" where
  "id_of req = field req ''id'' JNull"

definition is_name_in :: "json \<Rightarrow> string list \<Rightarrow> bool" where
  "is_name_in v names = list_ex (\<lambda>n. v = JStr (lit n)) names"

section \<open>\<open>woo_connector.py\<close>: the analysis of a dataset\<close>

text \<open>
  \<open>analyze_dataset\<close> hands the keywords of a text of any code points to \<open>map_to_topics\<close>
  and \<open>_suggest_woo_categories\<close>. These are the two functions on such keywords, over the
  same tables; the entries of the tables are literals.
\<close>

definition map_to_topics_u :: "(ustr list \<Rightarrow> ustr list) \<Rightarrow> ustr list \<Rightarrow> ustr list" where
  "map_to_topics_u ord keywords =
     ord
       (concat (map (\<lambda>keyword.
          concat (map (\<lambda>(key, topic_list). map lit topic_list)
                    (filter (\<lambda>(key, topic_list).
                               sublist (lit key) keyword \<or> sublist keyword (lit key))
                       TOPIC_MAPPING)))
          keywords))"

text \<open>The \<open>dict\<close> of a suggestion, with its keys \<open>category\<close>, \<open>name\<close> and \<open>reason\<close>.\<close>

record woo_suggestion =
  category_id :: string
  category_name :: string
  why :: ustr

fun keyword_pass_u :: "(string \<times> string list) list \<Rightarrow> ustr list \<Rightarrow> woo_suggestion list raising" where
  "keyword_pass_u [] keywords = Inr []"
| "keyword_pass_u ((cat_id, cat_keywords) # rest) keywords =
     (case find (\<lambda>kw. list_ex (\<lambda>ck. sublist (lit ck) kw) cat_keywords) keywords of
        None \<Rightarrow> keyword_pass_u rest keywords
      | Some kw \<Rightarrow>
          (case woo_category_name cat_id of
             Inl e \<Rightarrow> Inl (key_error (lit cat_id))
           | Inr nm \<Rightarrow>
               (case keyword_pass_u rest keywords of
                  Inl e \<Rightarrow> Inl e
                | Inr ss \<Rightarrow>
                    Inr (\<lparr>category_id = cat_id, category_name = nm,
                          why = lit ''Bevat keyword: '' @ kw\<rparr> # ss))))"

definition topic_rule_u :: "ustr list \<Rightarrow> string list \<Rightarrow> string \<Rightarrow> string \<Rightarrow> woo_suggestion list raising" where
  "topic_rule_u topics anchors cat_id reason_text =
     (if list_ex (\<lambda>t. lit t \<in> set topics) anchors
      then (case woo_category_name cat_id of
              Inl e \<Rightarrow> Inl (key_error (lit cat_id))
            | Inr nm \<Rightarrow> Inr [\<lparr>category_id = cat_id, category_name = nm, why = lit reason_text\<rparr>])
      else Inr [])"

definition topic_pass_u :: "ustr list \<Rightarrow> woo_suggestion list raising" where
  "topic_pass_u topics =
     raise_bind (topic_rule_u topics [''beleid'', ''regelgeving'', ''bestuur''] ''4''
                   ''Gerelateerd aan beleid en regelgeving'') (\<lambda>a.
     raise_bind (topic_rule_u topics [''subsidie'', financien] ''1e''
                   ''Gerelateerd aan subsidies'') (\<lambda>b.
       Inr (a @ b)))"

fun unique_suggestions_u :: "string list \<Rightarrow> woo_suggestion list \<Rightarrow> woo_suggestion list" where
  "unique_suggestions_u seen [] = []"
| "unique_suggestions_u seen (s # ss) =
     (if category_id s \<in> set seen then unique_suggestions_u seen ss
      else s # unique_suggestions_u (category_id s # seen) ss)"

definition suggest_woo_categories_u :: "ustr list \<Rightarrow> ustr list \<Rightarrow> woo_suggestion list raising" where
  "suggest_woo_categories_u keywords topics =
     raise_bind (keyword_pass_u category_keywords keywords) (\<lambda>a.
     raise_bind (topic_pass_u topics) (\<lambda>b.
       Inr (unique_suggestions_u [] (a @ b))))"

subsection \<open>\<open>analyze_dataset\<close>\<close>

text \<open>\<open>a or b\<close>\<close>

definition py_or :: "json \<Rightarrow> json \<Rightarrow> json" where
  "py_or a b = (if truthy a then a else b)"

text \<open>\<open>self._get_attr(attrs, key)\<close> on any JSON value: only a \<open>dict\<close> has \<open>.get\<close>.\<close>

definition woo_attr :: "'a interp_scheme \<Rightarrow> json \<Rightarrow> ustr \<Rightarrow> json raising" where
  "woo_attr I obj key =
     (case obj of
        JObj kvs \<Rightarrow> Inr (woo_get_attr kvs key)
      | _ \<Rightarrow> Inl (no_get_msg I obj))"

text \<open>
  A value in an f-string: a \<open>str\<close> is inserted as it is, another value as \<open>str\<close> prints it.
\<close>

definition formatted :: "'a interp_scheme \<Rightarrow> json \<Rightarrow> ustr" where
  "formatted I v = (case v of JStr s \<Rightarrow> s | _ \<Rightarrow> str_of I v)"

text \<open>
  \<open>sep.join(v)\<close>: the items of a list, which must all be \<open>str\<close>; the characters of a \<open>str\<close>;
  the keys of a \<open>dict\<close>; a \<open>TypeError\<close> otherwise.
\<close>

fun join_strings :: "ustr \<Rightarrow> ustr list \<Rightarrow> ustr" where
  "join_strings sep [] = []"
| "join_strings sep [x] = x"
| "join_strings sep (x # y # ys) = x @ sep @ join_strings sep (y # ys)"

fun str_items :: "json list \<Rightarrow> ustr list option" where
  "str_items [] = Some []"
| "str_items (JStr s # vs) = (case str_items vs of None \<Rightarrow> None | Some ss \<Rightarrow> Some (s # ss))"
| "str_items (_ # vs) = None"

definition py_join :: "'a interp_scheme \<Rightarrow> ustr \<Rightarrow> json \<Rightarrow> ustr raising" where
  "py_join I sep v =
     (case v of
        JList vs \<Rightarrow> (case str_items vs of
                      None \<Rightarrow> Inl (no_join_msg I v)
                    | Some ss \<Rightarrow> Inr (join_strings sep ss))
      | JStr s \<Rightarrow> Inr (join_strings sep (map (\<lambda>c. [c]) s))
      | JObj kvs \<Rightarrow> Inr (join_strings sep (fromkeys [] (map fst kvs)))
      | _ \<Rightarrow> Inl (no_join_msg I v))"

record analysis_result =
  dataset_id :: json
  title :: json
  top_keywords :: "ustr list"
  topics :: "ustr list"
  woo_categories :: "woo_suggestion list"
  woo_search_terms :: "ustr list"
  woo_index_url :: string
  relevance_score :: int

definition analyze_dataset ::
    "'a interp_scheme \<Rightarrow> unicode \<Rightarrow> (ustr list \<Rightarrow> ustr list) \<Rightarrow> json \<Rightarrow> analysis_result raising" where
  "analyze_dataset I U ord dataset =
     raise_bind (py_get I dataset (lit ''attributes'') (JObj [])) (\<lambda>attrs.
     raise_bind (woo_attr I attrs (lit ''title'')) (\<lambda>t.
     raise_bind (woo_attr I attrs (lit ''description'')) (\<lambda>d.
     raise_bind (woo_attr I attrs (lit ''keyword'')) (\<lambda>k.
     raise_bind (py_get I dataset (lit ''id'') (JStr [])) (\<lambda>ident.
     raise_bind (py_join I (lit '' '') (py_or k (JList []))) (\<lambda>joined.
       let text = formatted I (py_or t (JStr [])) @ lit '' '' @
                  formatted I (py_or d (JStr [])) @ lit '' '' @ joined;
           kws = extract_keywords U ord (Some text);
           tps = map_to_topics_u ord kws
       in raise_bind (suggest_woo_categories_u kws tps) (\<lambda>cats.
            Inr \<lparr>dataset_id = ident,
                 title = py_or t (JStr []),
                 top_keywords = take 10 kws,
                 topics = tps,
                 woo_categories = cats,
                 woo_search_terms = generate_search_terms kws tps,
                 woo_index_url = UTRECHT_WOO_URL,
                 relevance_score = int (length tps) + int (length cats)\<rparr>)))))))"

subsection \<open>\<open>find_related_datasets\<close>\<close>

record related =
  dataset :: json
  analysis :: analysis_result
  relevance :: int

text \<open>
  The loop over the datasets, in order; an exception of \<open>analyze_dataset\<close> ends it. The
  topics and keywords of an analysis are \<open>str\<close>, which \<open>str\<close> returns as they are.
\<close>

fun related_loop ::
    "'a interp_scheme \<Rightarrow> unicode \<Rightarrow> (ustr list \<Rightarrow> ustr list) \<Rightarrow> ustr \<Rightarrow> json list \<Rightarrow> related list raising" where
  "related_loop I U ord topic_lower [] = Inr []"
| "related_loop I U ord topic_lower (ds # rest) =
     (case analyze_dataset I U ord ds of
        Inl e \<Rightarrow> Inl e
      | Inr a \<Rightarrow>
          (case related_loop I U ord topic_lower rest of
             Inl e \<Rightarrow> Inl e
           | Inr r \<Rightarrow>
               Inr ((if list_ex (\<lambda>t. sublist topic_lower (lower U t)) (topics a)
                     then [\<lparr>dataset = ds, analysis = a, relevance = relevance_score a\<rparr>]
                     else if list_ex (\<lambda>k. sublist topic_lower (lower U k)) (top_keywords a)
                     then [\<lparr>dataset = ds, analysis = a, relevance = relevance_score a - 1\<rparr>]
                     else []) @ r)))"

definition find_related_datasets ::
    "'a interp_scheme \<Rightarrow> unicode \<Rightarrow> (ustr list \<Rightarrow> ustr list) \<Rightarrow> ustr \<Rightarrow> json list \<Rightarrow> related list raising" where
  "find_related_datasets I U ord woo_topic datasets =
     raise_bind (related_loop I U ord (lower U woo_topic) datasets) (\<lambda>rel.
       Inr (py_sorted_desc relevance rel))"

text \<open>
  The records on which \<open>analyze_dataset\<close> returns: a \<open>dict\<close> whose \<open>attributes\<close>, when the
  key is there, is a \<open>dict\<close>, in which the keyword entry that \<open>_get_attr\<close> finds is falsy or
  can be joined (a list of \<open>str\<close>; also a \<open>str\<close> or a \<open>dict\<close>, joined by characters or keys).
\<close>

definition joinable :: "json \<Rightarrow> bool" where
  "joinable v =
     (case v of
        JList vs \<Rightarrow> str_items vs \<noteq> None
      | JStr s \<Rightarrow> True
      | JObj kvs \<Rightarrow> True
      | _ \<Rightarrow> False)"

definition well_formed :: "json \<Rightarrow> bool" where
  "well_formed d =
     (case d of
        JObj kvs \<Rightarrow>
          (case map_of kvs (lit ''attributes'') of
             None \<Rightarrow> True
           | Some (JObj attrs) \<Rightarrow> joinable (py_or (woo_get_attr attrs (lit ''keyword'')) (JList []))
           | Some _ \<Rightarrow> False)
      | _ \<Rightarrow> False)"

text \<open>An interpreter for the examples: it prints nothing for values that are no \<open>str\<close>.\<close>

definition silent :: interp where
  "silent = \<lparr>str_of = (\<lambda>v. []), no_get_msg = (\<lambda>v. []), no_subscript_msg = (\<lambda>v. []),
             no_join_msg = (\<lambda>v. [])\<rparr>"

(*DEFS_END*)

section \<open>Properties\<close>

subsection \<open>Enumeration orders\<close>

lemma set_fromkeys: "set (fromkeys seen xs) = set xs - set seen"
  by (induction xs arbitrary: seen) auto

lemma distinct_fromkeys: "distinct (fromkeys seen xs)"
  by (induction xs arbitrary: seen) (auto simp: set_fromkeys)

lemma first_seen_ok: "set_order_ok first_seen"
  by (simp add: set_order_ok_def first_seen_def set_fromkeys distinct_fromkeys)

subsection \<open>Keyword extraction\<close>

lemma word_token_Nil: "\<not> word_token U [] w"
  by (auto simp: word_token_def)

lemma word_token_skip:
  assumes "\<not> is_word U c"
  shows "word_token U (c # cs) w \<longleftrightarrow> word_token U cs w"
proof
  assume "word_token U (c # cs) w"
  then obtain pre post where w: "w \<noteq> []" "\<forall>c\<in>set w. is_word U c"
    and s: "c # cs = pre @ w @ post"
    and b: "pre = [] \<or> \<not> is_word U (last pre)" "post = [] \<or> \<not> is_word U (hd post)"
    by (auto simp: word_token_def)
  from s w assms obtain pre' where p: "pre = c # pre'"
    by (cases pre) (auto simp: Cons_eq_append_conv)
  with s have "cs = pre' @ w @ post" by simp
  moreover from b p have "pre' = [] \<or> \<not> is_word U (last pre')" by (auto split: if_splits)
  ultimately show "word_token U cs w" using w b unfolding word_token_def by blast
next
  assume "word_token U cs w"
  then obtain pre post where w: "w \<noteq> []" "\<forall>c\<in>set w. is_word U c"
    and s: "cs = pre @ w @ post"
    and b: "pre = [] \<or> \<not> is_word U (last pre)" "post = [] \<or> \<not> is_word U (hd post)"
    by (auto simp: word_token_def)
  have "c # cs = (c # pre) @ w @ post" using s by simp
  moreover have "c # pre = [] \<or> \<not> is_word U (last (c # pre))" using b assms by auto
  ultimately show "word_token U (c # cs) w" using w b unfolding word_token_def by blast
qed

lemma takeWhile_token:
  assumes "\<forall>c\<in>set w. P c" "post = [] \<or> \<not> P (hd post)"
  shows "takeWhile P (w @ post) = w"
proof -
  have "takeWhile P post = []" using assms(2) by (cases post) auto
  then show ?thesis using assms(1) by (simp add: takeWhile_append2)
qed

lemma word_token_first:
  assumes "is_word U c"
  shows "word_token U (c # cs) (c # takeWhile (is_word U) cs)"
proof -
  let ?r = "dropWhile (is_word U) cs"
  have "c # cs = [] @ (c # takeWhile (is_word U) cs) @ ?r" by simp
  moreover have "?r = [] \<or> \<not> is_word U (hd ?r)" using hd_dropWhile[of "is_word U" cs] by blast
  moreover have "\<forall>x\<in>set (c # takeWhile (is_word U) cs). is_word U x"
    using assms by (auto dest: set_takeWhileD)
  ultimately show ?thesis unfolding word_token_def by blast
qed

lemma word_token_rest:
  assumes "is_word U c" "word_token U (dropWhile (is_word U) cs) w"
  shows "word_token U (c # cs) w"
proof -
  let ?r = "dropWhile (is_word U) cs"
  from assms(2) obtain pre post where w: "w \<noteq> []" "\<forall>c\<in>set w. is_word U c"
    and s: "?r = pre @ w @ post"
    and b: "pre = [] \<or> \<not> is_word U (last pre)" "post = [] \<or> \<not> is_word U (hd post)"
    by (auto simp: word_token_def)
  have "pre \<noteq> []"
  proof
    assume "pre = []"
    with s w have "?r \<noteq> []" "hd ?r = hd w" by auto
    moreover have "is_word U (hd w)" using w by (cases w) auto
    ultimately show False using hd_dropWhile[of "is_word U" cs] by simp
  qed
  let ?pre = "(c # takeWhile (is_word U) cs) @ pre"
  have "c # cs = ?pre @ w @ post" using s by (metis append_Cons append_assoc takeWhile_dropWhile_id)
  moreover have "\<not> is_word U (last ?pre)" using b \<open>pre \<noteq> []\<close> by simp
  ultimately show ?thesis using w b unfolding word_token_def by blast
qed

lemma word_token_cases:
  assumes "is_word U c" "word_token U (c # cs) w"
  shows "w = c # takeWhile (is_word U) cs \<or> word_token U (dropWhile (is_word U) cs) w"
proof -
  let ?tw = "c # takeWhile (is_word U) cs" and ?r = "dropWhile (is_word U) cs"
  from assms(2) obtain pre post where w: "w \<noteq> []" "\<forall>c\<in>set w. is_word U c"
    and s: "c # cs = pre @ w @ post"
    and b: "pre = [] \<or> \<not> is_word U (last pre)" "post = [] \<or> \<not> is_word U (hd post)"
    by (auto simp: word_token_def)
  have tw: "\<forall>x\<in>set ?tw. is_word U x" using assms(1) by (auto dest: set_takeWhileD)
  show ?thesis
  proof (cases "pre = []")
    case True
    with s have "takeWhile (is_word U) (c # cs) = takeWhile (is_word U) (w @ post)" by simp
    also have "\<dots> = w" using w(2) b(2) by (rule takeWhile_token)
    finally show ?thesis using assms(1) by simp
  next
    case False
    with b have nl: "\<not> is_word U (last pre)" by simp
    have "?tw @ ?r = pre @ (w @ post)" using s by simp
    then obtain us where "(?tw = pre @ us \<and> us @ ?r = w @ post) \<or> (?tw @ us = pre \<and> ?r = us @ w @ post)"
      unfolding append_eq_append_conv2 by blast
    then show ?thesis
    proof
      assume "?tw = pre @ us \<and> us @ ?r = w @ post"
      then have "last pre \<in> set ?tw" using False by (metis in_set_conv_decomp append_butlast_last_id append_assoc append_Cons)
      with tw nl show ?thesis by blast
    next
      assume h: "?tw @ us = pre \<and> ?r = us @ w @ post"
      have "us \<noteq> []"
      proof
        assume "us = []"
        with h have "last pre = last ?tw" by simp
        moreover have "last ?tw \<in> set ?tw" by (rule last_in_set) simp
        ultimately show False using tw nl by metis
      qed
      with h nl have "\<not> is_word U (last us)" by (metis last_appendR)
      with h w b have "word_token U ?r w" unfolding word_token_def by blast
      then show ?thesis ..
    qed
  qed
qed

lemma set_findall_words: "set (findall_words U s) = {w. word_token U s w}"
proof (induction U s rule: findall_words.induct)
  case 1
  show ?case by (simp add: word_token_Nil)
next
  case (2 U c cs)
  show ?case
  proof (cases "is_word U c")
    case True
    with 2 have "set (findall_words U (c # cs)) =
        insert (c # takeWhile (is_word U) cs) {w. word_token U (dropWhile (is_word U) cs) w}" by simp
    also have "\<dots> = {w. word_token U (c # cs) w}"
      using True word_token_first word_token_rest word_token_cases by blast
    finally show ?thesis .
  next
    case False
    with 2 show ?thesis by (simp add: word_token_skip)
  qed
qed

lemma lower_from_lit: "lower_from U before (lit s) = lit (map lower_char s)"
  by (induction s arbitrary: before) (simp_all add: lit_def)

lemma lower_lit: "lower U (lit s) = lit (map lower_char s)"
  by (simp add: lower_def lower_from_lit)

lemma set_extract_keywords:
  assumes "set_order_ok ord"
  shows "set (extract_keywords U ord (Some t)) =
           {w \<in> set (findall_words U (lower U t)). length w > 3 \<and> w \<notin> set (map lit stopwords)}"
proof (cases "t = []")
  case True
  then show ?thesis by (simp add: extract_keywords_def lower_def)
next
  case False
  then show ?thesis using assms by (auto simp: extract_keywords_def set_order_ok_def)
qed

text \<open>
  Claim C6. For every text, of any code points, and whatever the interpreter's Unicode
  database does beyond 256: the keywords extracted are exactly the maximal runs of word
  characters of the lowercased text that are longer than 3 code points and are not
  stopwords; an absent or empty text gives no keyword; and the sentence
  "Afvalbakken in de openbare ruimte voor afvalbeleid" gives afvalbakken, openbare, ruimte
  and afvalbeleid, and neither in, de nor voor.
\<close>

theorem extract_keywords_tokens:
  assumes "set_order_ok ord"
  shows "set (extract_keywords U ord (Some text)) =
           {w. word_token U (lower U text) w \<and> length w > 3 \<and> w \<notin> set (map lit stopwords)} \<and>
         extract_keywords U ord None = [] \<and>
         extract_keywords U ord (Some []) = [] \<and>
         set (extract_keywords U ord
                (Some (lit ''Afvalbakken in de openbare ruimte voor afvalbeleid''))) =
           {lit ''afvalbakken'', lit ''openbare'', lit ''ruimte'', lit ''afvalbeleid''}"
proof (intro conjI)
  show "set (extract_keywords U ord (Some text)) =
           {w. word_token U (lower U text) w \<and> length w > 3 \<and> w \<notin> set (map lit stopwords)}"
    unfolding set_extract_keywords[OF assms] set_findall_words by blast
  show "extract_keywords U ord None = []" by (simp add: extract_keywords_def)
  show "extract_keywords U ord (Some []) = []" by (simp add: extract_keywords_def)
  have "filter (\<lambda>w. length w > 3 \<and> w \<notin> set (map lit stopwords))
          (findall_words U (lower U (lit ''Afvalbakken in de openbare ruimte voor afvalbeleid''))) =
        [lit ''afvalbakken'', lit ''openbare'', lit ''ruimte'', lit ''afvalbeleid'']"
    by code_simp
  then have "{w \<in> set (findall_words U
                (lower U (lit ''Afvalbakken in de openbare ruimte voor afvalbeleid''))).
              length w > 3 \<and> w \<notin> set (map lit stopwords)} =
        set [lit ''afvalbakken'', lit ''openbare'', lit ''ruimte'', lit ''afvalbeleid'']"
    by (metis set_filter)
  then show "set (extract_keywords U ord
                (Some (lit ''Afvalbakken in de openbare ruimte voor afvalbeleid''))) =
           {lit ''afvalbakken'', lit ''openbare'', lit ''ruimte'', lit ''afvalbeleid''}"
    unfolding set_extract_keywords[OF assms] by simp
qed

text \<open>
  The theorem at a text with a code point beyond 256, the euro sign U+20AC, between two
  words, under the first-insertion order.
\<close>

theorem extract_keywords_tokens_witness:
  "set_order_ok (first_seen :: ustr list \<Rightarrow> ustr list) \<and>
   {w. word_token plain_beyond (lower plain_beyond (lit ''De Afvalbak'' @ [Beyond 8108] @ lit ''Kosten'')) w \<and>
       length w > 3 \<and> w \<notin> set (map lit stopwords)} =
     {lit ''afvalbak'', lit ''kosten''}"
proof -
  have e: "extract_keywords plain_beyond first_seen
             (Some (lit ''De Afvalbak'' @ [Beyond 8108] @ lit ''Kosten'')) =
           [lit ''afvalbak'', lit ''kosten'']"
    by code_simp
  show ?thesis
    using extract_keywords_tokens[OF first_seen_ok, of plain_beyond
            "lit ''De Afvalbak'' @ [Beyond 8108] @ lit ''Kosten''"] first_seen_ok
    unfolding e by simp
qed

subsection \<open>Topic mapping\<close>

lemma set_map_to_topics:
  assumes "set_order_ok ord"
  shows "set (map_to_topics ord K) =
     (\<Union>e \<in> {e \<in> set TOPIC_MAPPING. \<exists>kw\<in>set K. sublist (fst e) kw \<or> sublist kw (fst e)}. set (snd e))"
  using assms unfolding map_to_topics_def set_order_ok_def
  by (auto simp: case_prod_beta)

text \<open>
  Claim C3. The topics mapped from a keyword set are exactly the union of the topic lists of
  the entries of the static table whose anchor is contained in some keyword or contains
  some keyword; so they all come from the table; and the keyword afval alone maps to
  milieu, openbare ruimte, beheer and huisvesting.
\<close>

theorem map_to_topics_union:
  assumes "set_order_ok ord"
  shows "set (map_to_topics ord K) =
           (\<Union>e \<in> {e \<in> set TOPIC_MAPPING. \<exists>kw\<in>set K. sublist (fst e) kw \<or> sublist kw (fst e)}.
              set (snd e)) \<and>
         set (map_to_topics ord K) \<subseteq> (\<Union>e \<in> set TOPIC_MAPPING. set (snd e)) \<and>
         {''milieu'', ''openbare ruimte'', ''beheer'', ''huisvesting''}
           \<subseteq> set (map_to_topics ord [''afval''])"
proof (intro conjI)
  show "set (map_to_topics ord K) =
     (\<Union>e \<in> {e \<in> set TOPIC_MAPPING. \<exists>kw\<in>set K. sublist (fst e) kw \<or> sublist kw (fst e)}. set (snd e))"
    by (rule set_map_to_topics[OF assms])
  then show "set (map_to_topics ord K) \<subseteq> (\<Union>e \<in> set TOPIC_MAPPING. set (snd e))"
    by blast
  have "concat (map (\<lambda>keyword.
          concat (map snd (filter (\<lambda>(key, topic_list). sublist key keyword \<or> sublist keyword key)
                             TOPIC_MAPPING))) [''afval'']) =
        [''milieu'', ''openbare ruimte'', ''beheer'', ''huisvesting'']"
    by code_simp
  then have "set (map_to_topics ord [''afval'']) =
      set [''milieu'', ''openbare ruimte'', ''beheer'', ''huisvesting'']"
    using assms unfolding map_to_topics_def set_order_ok_def by metis
  then show "{''milieu'', ''openbare ruimte'', ''beheer'', ''huisvesting''}
           \<subseteq> set (map_to_topics ord [''afval''])" by simp
qed

theorem map_to_topics_union_witness:
  "set_order_ok first_seen \<and>
   (\<Union>e \<in> {e \<in> set TOPIC_MAPPING.
            \<exists>kw\<in>set [''busbaan'']. sublist (fst e) kw \<or> sublist kw (fst e)}. set (snd e)) =
     {''openbaar vervoer'', ''mobiliteit'', ''infrastructuur''}"
proof -
  have e: "map_to_topics first_seen [''busbaan''] =
             [''openbaar vervoer'', ''mobiliteit'', ''infrastructuur'']"
    by code_simp
  show ?thesis
    using map_to_topics_union[OF first_seen_ok, of "[''busbaan'']"] first_seen_ok
    unfolding e by simp
qed

subsection \<open>Category suggestions\<close>

lemma keyword_pass_categories:
  assumes "\<forall>c\<in>set (map fst tbl). map_of WOO_CATEGORIES c \<noteq> None"
  shows "\<exists>a. keyword_pass tbl K = Inr a \<and>
           map category a =
             map fst (filter (\<lambda>e. \<exists>kw\<in>set K. \<exists>ck\<in>set (snd e). sublist ck kw) tbl)"
  using assms
proof (induction tbl)
  case Nil
  show ?case by simp
next
  case (Cons e tbl)
  obtain cat_id cks where e: "e = (cat_id, cks)" by (cases e)
  from Cons obtain a where a: "keyword_pass tbl K = Inr a"
    "map category a = map fst (filter (\<lambda>e. \<exists>kw\<in>set K. \<exists>ck\<in>set (snd e). sublist ck kw) tbl)"
    by auto
  from Cons.prems e obtain nm where nm: "woo_category_name cat_id = Inr nm"
    by (auto simp: woo_category_name_def)
  show ?case
  proof (cases "find (\<lambda>kw. list_ex (\<lambda>ck. sublist ck kw) cks) K")
    case None
    then have "\<not> (\<exists>kw\<in>set K. \<exists>ck\<in>set cks. sublist ck kw)"
      by (auto simp: find_None_iff list_ex_iff)
    with None a e show ?thesis by simp
  next
    case (Some kw)
    then have "kw \<in> set K" "list_ex (\<lambda>ck. sublist ck kw) cks"
      by (metis find_Some_iff nth_mem)+
    then have "\<exists>kw\<in>set K. \<exists>ck\<in>set cks. sublist ck kw"
      by (auto simp: list_ex_iff)
    with Some a e nm show ?thesis by simp
  qed
qed

lemma category_keywords_named:
  "\<forall>c\<in>set (map fst category_keywords). map_of WOO_CATEGORIES c \<noteq> None"
  by (simp add: category_keywords_def WOO_CATEGORIES_def)

lemma distinct_category_keywords: "distinct (map fst category_keywords)"
  by (simp add: category_keywords_def)

lemma topic_pass_categories:
  "\<exists>b. topic_pass T = Inr b \<and>
     map category b =
       (if set T \<inter> {''beleid'', ''regelgeving'', ''bestuur''} \<noteq> {} then [''4''] else []) @
       (if set T \<inter> {''subsidie'', financien} \<noteq> {} then [''1e''] else [])"
  by (auto simp: topic_pass_def topic_rule_def py_bind_def woo_category_name_def
                 WOO_CATEGORIES_def list_ex_iff)

lemma unique_suggestions_filter:
  "distinct (map category ss) \<Longrightarrow>
     unique_suggestions seen ss = filter (\<lambda>s. category s \<notin> set seen) ss"
proof (induction ss arbitrary: seen)
  case Nil
  show ?case by simp
next
  case (Cons s ss)
  from Cons.prems have "\<forall>x\<in>set ss. category x \<noteq> category s"
    by (metis distinct.simps(2) image_eqI list.simps(9) set_map)
  then have "filter (\<lambda>x. category x \<notin> set (category s # seen)) ss =
             filter (\<lambda>x. category x \<notin> set seen) ss"
    by (intro filter_cong) auto
  with Cons show ?case by simp
qed

lemma unique_suggestions_seen:
  "set seen = set seen' \<Longrightarrow> unique_suggestions seen ss = unique_suggestions seen' ss"
proof (induction ss arbitrary: seen seen')
  case Nil
  show ?case by simp
next
  case (Cons s ss)
  have "unique_suggestions (category s # seen) ss = unique_suggestions (category s # seen') ss"
    by (rule Cons.IH) (simp add: Cons.prems)
  moreover have "unique_suggestions seen ss = unique_suggestions seen' ss"
    by (rule Cons.IH) (rule Cons.prems)
  ultimately show ?case using Cons.prems by simp
qed

lemma unique_suggestions_append:
  "unique_suggestions seen (a @ b) =
     unique_suggestions seen a @ unique_suggestions (map category a @ seen) b"
proof (induction a arbitrary: seen)
  case Nil
  show ?case by simp
next
  case (Cons s a)
  show ?case
  proof (cases "category s \<in> set seen")
    case True
    then have "set (map category (s # a) @ seen) = set (map category a @ seen)" by auto
    then have "unique_suggestions (map category (s # a) @ seen) b =
               unique_suggestions (map category a @ seen) b"
      by (rule unique_suggestions_seen)
    with True Cons show ?thesis by simp
  next
    case False
    have "set (map category (s # a) @ seen) = set (map category a @ category s # seen)" by auto
    then have "unique_suggestions (map category (s # a) @ seen) b =
               unique_suggestions (map category a @ category s # seen) b"
      by (rule unique_suggestions_seen)
    with False Cons show ?thesis by simp
  qed
qed

text \<open>
  Claim C4. No two suggestions share a category; the keyword pass gives one suggestion for
  each category code, in table order, that has a trigger contained in some keyword; the
  topic rules give category 4 when a topic is beleid, regelgeving or bestuur and category 1e
  when a topic is subsidie or financien; and the result is the keyword pass followed by the
  topic suggestions whose category the keyword pass has not given (first seen wins).
\<close>

theorem suggest_woo_categories_unique:
  "\<exists>a b. keyword_pass category_keywords K = Inr a \<and>
         topic_pass T = Inr b \<and>
         map category a =
           map fst (filter (\<lambda>e. \<exists>kw\<in>set K. \<exists>ck\<in>set (snd e). sublist ck kw) category_keywords) \<and>
         map category b =
           (if set T \<inter> {''beleid'', ''regelgeving'', ''bestuur''} \<noteq> {} then [''4''] else []) @
           (if set T \<inter> {''subsidie'', financien} \<noteq> {} then [''1e''] else []) \<and>
         suggest_woo_categories K T =
           Inr (a @ filter (\<lambda>s. category s \<notin> category ` set a) b) \<and>
         distinct (map category (a @ filter (\<lambda>s. category s \<notin> category ` set a) b))"
proof -
  obtain a where a: "keyword_pass category_keywords K = Inr a"
    "map category a =
       map fst (filter (\<lambda>e. \<exists>kw\<in>set K. \<exists>ck\<in>set (snd e). sublist ck kw) category_keywords)"
    using keyword_pass_categories[OF category_keywords_named] by blast
  obtain b where b: "topic_pass T = Inr b"
    "map category b =
       (if set T \<inter> {''beleid'', ''regelgeving'', ''bestuur''} \<noteq> {} then [''4''] else []) @
       (if set T \<inter> {''subsidie'', financien} \<noteq> {} then [''1e''] else [])"
    using topic_pass_categories by blast
  have da: "distinct (map category a)"
    unfolding a(2) using distinct_category_keywords by (rule distinct_map_filter)
  have db: "distinct (map category b)"
    unfolding b(2) by simp
  have "unique_suggestions [] (a @ b) =
          unique_suggestions [] a @ unique_suggestions (map category a @ []) b"
    by (rule unique_suggestions_append)
  also have "unique_suggestions [] a = a"
    using unique_suggestions_filter[OF da, of "[]"] by simp
  also have "unique_suggestions (map category a @ []) b =
               filter (\<lambda>s. category s \<notin> category ` set a) b"
    using unique_suggestions_filter[OF db, of "map category a @ []"] by simp
  finally have u: "unique_suggestions [] (a @ b) =
                     a @ filter (\<lambda>s. category s \<notin> category ` set a) b" .
  have r: "suggest_woo_categories K T = Inr (a @ filter (\<lambda>s. category s \<notin> category ` set a) b)"
    by (simp add: suggest_woo_categories_def py_bind_def a(1) b(1) u)
  have "distinct (map category (filter (\<lambda>s. category s \<notin> category ` set a) b))"
    using db by (rule distinct_map_filter)
  moreover have "set (map category a) \<inter>
                 set (map category (filter (\<lambda>s. category s \<notin> category ` set a) b)) = {}"
    by (auto simp: image_iff)
  ultimately have d: "distinct (map category (a @ filter (\<lambda>s. category s \<notin> category ` set a) b))"
    using da by (simp only: map_append distinct_append)
  from a b r d show ?thesis by blast
qed

theorem suggest_woo_categories_unique_witness:
  "map category (projr (suggest_woo_categories [''subsidieregeling''] [''beleid'', financien])) =
     [''1e'', ''4'']"
proof -
  have k: "keyword_pass category_keywords [''subsidieregeling''] =
        Inr [\<lparr>category = ''1e'', name = ''Beschikkingen over aanvragen om een subsidie'',
                reason = ''Bevat keyword: subsidieregeling''\<rparr>,
             \<lparr>category = ''4'', name = ''Regelingen en beleidsnota'' @ [CHR 0x27] @ ''s'',
                reason = ''Bevat keyword: subsidieregeling''\<rparr>]"
    by code_simp
  have t: "topic_pass [''beleid'', financien] =
        Inr [\<lparr>category = ''4'', name = ''Regelingen en beleidsnota'' @ [CHR 0x27] @ ''s'',
                reason = ''Gerelateerd aan beleid en regelgeving''\<rparr>,
             \<lparr>category = ''1e'', name = ''Beschikkingen over aanvragen om een subsidie'',
                reason = ''Gerelateerd aan subsidies''\<rparr>]"
    by code_simp
  show ?thesis
    using suggest_woo_categories_unique[of "[''subsidieregeling'']" "[''beleid'', financien]"]
    unfolding k t by auto
qed

subsection \<open>Search terms\<close>

lemma fromkeys_positions:
  "fromkeys seen xs =
     map (\<lambda>i. xs ! i) (filter (\<lambda>i. xs ! i \<notin> set seen \<union> set (take i xs)) [0..<length xs])"
proof (induction xs arbitrary: seen)
  case Nil
  show ?case by simp
next
  case (Cons x xs)
  have u: "[0..<length (x # xs)] = 0 # map Suc [0..<length xs]"
    by (simp add: upt_conv_Cons map_Suc_upt del: upt_Suc)
  show ?case
  proof (cases "x \<in> set seen")
    case True
    then show ?thesis unfolding u
      apply (simp add: Cons.IH[of seen] filter_map comp_def)
      apply (rule arg_cong[where f="map ((!) xs)"])
      apply (rule filter_cong)
      apply auto
      done
  next
    case False
    then show ?thesis unfolding u
      apply (simp add: Cons.IH[of "x # seen"] filter_map comp_def)
      apply (rule arg_cong[where f="map ((!) xs)"])
      apply (rule filter_cong)
      apply auto
      done
  qed
qed

lemma fromkeys_first_occurrences: "fromkeys [] xs = first_occurrences xs"
  by (simp add: fromkeys_positions first_occurrences_def)

lemma fromkeys_filter:
  "distinct xs \<Longrightarrow> fromkeys seen xs = filter (\<lambda>x. x \<notin> set seen) xs"
proof (induction xs arbitrary: seen)
  case Nil
  show ?case by simp
next
  case (Cons x xs)
  then have "filter (\<lambda>y. y \<notin> set (x # seen)) xs = filter (\<lambda>y. y \<notin> set seen) xs"
    by (intro filter_cong) auto
  with Cons show ?case by simp
qed

lemma fromkeys_seen: "set seen = set seen' \<Longrightarrow> fromkeys seen xs = fromkeys seen' xs"
proof (induction xs arbitrary: seen seen')
  case Nil
  show ?case by simp
next
  case (Cons x xs)
  have "fromkeys (x # seen) xs = fromkeys (x # seen') xs"
    by (rule Cons.IH) (simp add: Cons.prems)
  moreover have "fromkeys seen xs = fromkeys seen' xs"
    by (rule Cons.IH) (rule Cons.prems)
  ultimately show ?case using Cons.prems by simp
qed

lemma fromkeys_append: "fromkeys seen (a @ b) = fromkeys seen a @ fromkeys (a @ seen) b"
proof (induction a arbitrary: seen)
  case Nil
  show ?case by simp
next
  case (Cons x a)
  show ?case
  proof (cases "x \<in> set seen")
    case True
    then have "set ((x # a) @ seen) = set (a @ seen)" by auto
    then have "fromkeys ((x # a) @ seen) b = fromkeys (a @ seen) b" by (rule fromkeys_seen)
    with True Cons show ?thesis by simp
  next
    case False
    have "set ((x # a) @ seen) = set (a @ x # seen)" by auto
    then have "fromkeys ((x # a) @ seen) b = fromkeys (a @ x # seen) b" by (rule fromkeys_seen)
    with False Cons show ?thesis by simp
  qed
qed

lemma fromkeys_distinct_append:
  assumes "distinct a" "distinct b"
  shows "fromkeys [] (a @ b) = a @ filter (\<lambda>t. t \<notin> set a) b"
  using fromkeys_filter[OF assms(1), of "[]"] fromkeys_filter[OF assms(2), of "a @ []"]
  by (simp add: fromkeys_append)

lemma py_sorted_desc_sorted: "sorted_wrt (\<lambda>a b. k a \<ge> k b) (py_sorted_desc k xs)"
proof -
  have "sorted (map (\<lambda>x. - k x) (sort_key (\<lambda>x. - k x) xs))" by (rule sorted_sort_key)
  then show ?thesis by (simp add: py_sorted_desc_def sorted_wrt_map)
qed

lemma py_sorted_desc_stable:
  "filter (\<lambda>x. k x = v) (py_sorted_desc k xs) = filter (\<lambda>x. k x = v) xs"
  using sort_key_stable[of "\<lambda>x. - k x" "- v" xs] by (simp add: py_sorted_desc_def)

lemma mset_py_sorted_desc: "mset (py_sorted_desc k xs) = mset xs"
  by (simp add: py_sorted_desc_def)

abbreviation by_length_desc :: "'a list list \<Rightarrow> 'a list list" where
  "by_length_desc K \<equiv> py_sorted_desc (\<lambda>k. int (length k)) K"

text \<open>
  Claim C7. The search terms are the first 5 keywords of the keyword enumeration sorted by
  descending length (a stable sort: keywords of equal length keep their enumeration
  order), followed by the first 3 topics, with every entry that occurs earlier in that
  concatenation removed; so the output has no duplicate.
\<close>

theorem generate_search_terms_spec:
  "generate_search_terms K T = first_occurrences (take 5 (by_length_desc K) @ take 3 T) \<and>
   distinct (generate_search_terms K T) \<and>
   set (generate_search_terms K T) = set (take 5 (by_length_desc K)) \<union> set (take 3 T) \<and>
   sorted_wrt (\<lambda>a b. length a \<ge> length b) (by_length_desc K) \<and>
   mset (by_length_desc K) = mset K \<and>
   (\<forall>n. filter (\<lambda>k. length k = n) (by_length_desc K) = filter (\<lambda>k. length k = n) K) \<and>
   (distinct K \<and> distinct T \<longrightarrow>
      generate_search_terms K T =
        take 5 (by_length_desc K) @ filter (\<lambda>t. t \<notin> set (take 5 (by_length_desc K))) (take 3 T))"
proof (intro conjI allI impI)
  show "generate_search_terms K T = first_occurrences (take 5 (by_length_desc K) @ take 3 T)"
    by (simp add: generate_search_terms_def fromkeys_first_occurrences)
  show "distinct (generate_search_terms K T)"
    by (simp add: generate_search_terms_def distinct_fromkeys)
  show "set (generate_search_terms K T) = set (take 5 (by_length_desc K)) \<union> set (take 3 T)"
    by (simp add: generate_search_terms_def set_fromkeys)
  show "sorted_wrt (\<lambda>a b. length a \<ge> length b) (by_length_desc K)"
    using py_sorted_desc_sorted[of "\<lambda>k. int (length k)" K] by simp
  show "mset (by_length_desc K) = mset K"
    by (rule mset_py_sorted_desc)
  show "filter (\<lambda>k. length k = n) (by_length_desc K) = filter (\<lambda>k. length k = n) K" for n
    using py_sorted_desc_stable[of "\<lambda>k. int (length k)" "int n" K] by simp
  assume d: "distinct K \<and> distinct T"
  have "distinct (by_length_desc K)"
    using d mset_py_sorted_desc[of "\<lambda>k. int (length k)" K] by (metis mset_eq_imp_distinct_iff)
  then have "distinct (take 5 (by_length_desc K))" by (rule distinct_take)
  moreover have "distinct (take 3 T)" using d by simp
  ultimately show "generate_search_terms K T =
        take 5 (by_length_desc K) @ filter (\<lambda>t. t \<notin> set (take 5 (by_length_desc K))) (take 3 T)"
    unfolding generate_search_terms_def by (rule fromkeys_distinct_append)
qed

theorem generate_search_terms_spec_witness:
  "distinct [''afval'', ''milieubeleid'', ''bakken'', ''milieu'', ''ruimte'', ''straat'', ''water''] \<and>
   distinct [''milieu'', ''beheer'', ''natuur'', ''klimaat''] \<and>
   generate_search_terms
     [''afval'', ''milieubeleid'', ''bakken'', ''milieu'', ''ruimte'', ''straat'', ''water'']
     [''milieu'', ''beheer'', ''natuur'', ''klimaat''] =
     [''milieubeleid'', ''bakken'', ''milieu'', ''ruimte'', ''straat'', ''beheer'', ''natuur'']"
proof -
  have s: "by_length_desc [''afval'', ''milieubeleid'', ''bakken'', ''milieu'', ''ruimte'', ''straat'', ''water'']
           = [''milieubeleid'', ''bakken'', ''milieu'', ''ruimte'', ''straat'', ''afval'', ''water'']"
    by code_simp
  show ?thesis
    using generate_search_terms_spec
      [of "[''afval'', ''milieubeleid'', ''bakken'', ''milieu'', ''ruimte'', ''straat'', ''water'']"
          "[''milieu'', ''beheer'', ''natuur'', ''klimaat'']"]
    unfolding s by (simp add: first_occurrences_def)
qed


subsection \<open>Attribute resolvers\<close>

lemma get_attr_resolve:
  "get_attr obj key = (case resolve obj key of None \<Rightarrow> JNull | Some v \<Rightarrow> v)"
  by (auto simp: get_attr_def resolve_def candidate_keys_def dom_def split: option.splits)

text \<open>
  Claim C8. The specification's resolver returns the value of the first of dct:key,
  dcat:key, foaf:key and key that is present, whatever that value is. \<open>MCPServer.get_attr\<close>
  does exactly that (\<open>get_attr_resolve\<close>). \<open>WooConnector._get_attr\<close> does not: on a record
  whose \<open>dct:title\<close> is present and empty it skips to \<open>title\<close>, and on a record with
  \<open>foaf:title\<close> and \<open>title\<close> it never looks at \<open>foaf:title\<close>.
\<close>

theorem woo_get_attr_diverges:
  "resolve [(lit ''dct:title'', JStr []), (lit ''title'', JStr (lit ''Afvalbakken''))] (lit ''title'')
     = Some (JStr []) \<and>
   get_attr [(lit ''dct:title'', JStr []), (lit ''title'', JStr (lit ''Afvalbakken''))] (lit ''title'')
     = JStr [] \<and>
   woo_get_attr [(lit ''dct:title'', JStr []), (lit ''title'', JStr (lit ''Afvalbakken''))] (lit ''title'')
     = JStr (lit ''Afvalbakken'') \<and>
   resolve [(lit ''foaf:name'', JStr (lit ''Gemeente'')), (lit ''name'', JStr (lit ''x''))] (lit ''name'')
     = Some (JStr (lit ''Gemeente'')) \<and>
   get_attr [(lit ''foaf:name'', JStr (lit ''Gemeente'')), (lit ''name'', JStr (lit ''x''))] (lit ''name'')
     = JStr (lit ''Gemeente'') \<and>
   woo_get_attr [(lit ''foaf:name'', JStr (lit ''Gemeente'')), (lit ''name'', JStr (lit ''x''))] (lit ''name'')
     = JStr (lit ''x'')"
  by (simp add: resolve_def candidate_keys_def get_attr_def woo_get_attr_def dict_get_def lit_def dom_def)

subsection \<open>Request dispatch\<close>

lemma lit_inj: "lit a = lit b \<longleftrightarrow> a = b"
  by (simp add: lit_def inj_map_eq_map inj_on_def)

lemma handle_request_dict:
  "handle_request W (JObj req) =
     (case dispatch W (method_of req) (params_of req) (id_of req) of
        Inr r \<Rightarrow> Inr r
      | Inl e \<Rightarrow> Inr (error_response (id_of req) (-32603) e))"
  by (simp add: handle_request_def py_get_def raise_bind_def method_of_def params_of_def
                id_of_def field_def split: sum.split)

lemma call_tool_dict:
  "call_tool W i (JObj ps) =
     (case run_tool W i (field ps ''name'' JNull) (field ps ''arguments'' (JObj [])) of
        Inr r \<Rightarrow> Inr r
      | Inl e \<Rightarrow> Inr (error_response i (-32603) (lit ''Tool execution failed: '' @ e)))"
  by (simp add: call_tool_def py_get_def raise_bind_def field_def)

lemma dispatch_unknown_method:
  assumes "\<not> is_name_in m method_names"
  shows "dispatch W m p i =
           Inr (Error i (-32601) (lit ''Method not found: '' @ str_of W m))"
  using assms by (simp add: dispatch_def is_name_in_def method_names_def error_response_def)

lemma run_tool_unknown:
  assumes "\<not> is_name_in t (map fst tool_catalog)"
  shows "run_tool W i t a = Inr (Error i (-32602) (lit ''Unknown tool: '' @ str_of W t))"
  using assms by (simp add: run_tool_def is_name_in_def tool_catalog_def error_response_def)

lemma run_tool_missing:
  assumes "(t, required) \<in> set tool_catalog" "k \<in> set required" "map_of args (lit k) = None"
  shows "run_tool W i (JStr (lit t)) (JObj args) = Inl (key_error (lit k))"
  using assms
  by (auto simp: tool_catalog_def run_tool_def lit_inj py_getitem_def raise_bind_def)

lemma dispatch_tools_call:
  "dispatch W (JStr (lit ''tools/call'')) p i = call_tool W i p"
  by (simp add: dispatch_def lit_inj)

text \<open>
  Claim C1. For a request that is a JSON object: a method outside the five method names
  gives the error \<open>-32601\<close>; the method \<open>tools/call\<close> with a tool name outside the ten
  tools of the catalogue gives the error \<open>-32602\<close>; the method \<open>tools/call\<close> for a tool
  of the catalogue, with an argument that the catalogue requires missing from the
  arguments, gives the error \<open>-32603\<close> whose message carries that of the \<open>KeyError\<close>; and no
  exception leaves \<open>handle_request\<close>, whatever the handlers raise.
\<close>

theorem handle_request_errors:
  "(\<not> is_name_in (method_of req) method_names \<longrightarrow>
      handle_request W (JObj req) =
        Inr (Error (id_of req) (-32601) (lit ''Method not found: '' @ str_of W (method_of req)))) \<and>
   (method_of req = JStr (lit ''tools/call'') \<and> params_of req = JObj ps \<and>
    \<not> is_name_in (field ps ''name'' JNull) (map fst tool_catalog) \<longrightarrow>
      handle_request W (JObj req) =
        Inr (Error (id_of req) (-32602)
               (lit ''Unknown tool: '' @ str_of W (field ps ''name'' JNull)))) \<and>
   (method_of req = JStr (lit ''tools/call'') \<and> params_of req = JObj ps \<and>
    field ps ''name'' JNull = JStr (lit t) \<and> (t, required) \<in> set tool_catalog \<and>
    k \<in> set required \<and>
    field ps ''arguments'' (JObj []) = JObj args \<and> map_of args (lit k) = None \<longrightarrow>
      handle_request W (JObj req) =
        Inr (Error (id_of req) (-32603) (lit ''Tool execution failed: '' @ key_error (lit k)))) \<and>
   (\<exists>r. handle_request W (JObj req) = Inr r)"
proof (intro conjI impI)
  assume "\<not> is_name_in (method_of req) method_names"
  then show "handle_request W (JObj req) =
        Inr (Error (id_of req) (-32601) (lit ''Method not found: '' @ str_of W (method_of req)))"
    by (simp add: handle_request_dict dispatch_unknown_method)
next
  assume "method_of req = JStr (lit ''tools/call'') \<and> params_of req = JObj ps \<and>
    \<not> is_name_in (field ps ''name'' JNull) (map fst tool_catalog)"
  then show "handle_request W (JObj req) =
        Inr (Error (id_of req) (-32602)
               (lit ''Unknown tool: '' @ str_of W (field ps ''name'' JNull)))"
    by (simp add: handle_request_dict dispatch_tools_call call_tool_dict run_tool_unknown)
next
  assume a: "method_of req = JStr (lit ''tools/call'') \<and> params_of req = JObj ps \<and>
    field ps ''name'' JNull = JStr (lit t) \<and> (t, required) \<in> set tool_catalog \<and>
    k \<in> set required \<and>
    field ps ''arguments'' (JObj []) = JObj args \<and> map_of args (lit k) = None"
  then have "run_tool W (id_of req) (JStr (lit t)) (JObj args) = Inl (key_error (lit k))"
    by (intro run_tool_missing[of t required k]) simp_all
  with a show "handle_request W (JObj req) =
        Inr (Error (id_of req) (-32603) (lit ''Tool execution failed: '' @ key_error (lit k)))"
    by (simp add: handle_request_dict dispatch_tools_call call_tool_dict error_response_def)
next
  show "\<exists>r. handle_request W (JObj req) = Inr r"
    by (simp add: handle_request_dict split: sum.split)
qed

text \<open>
  The request \<open>{"method": "tools/call", "params": {"name": "get_dataset", "arguments": {}}}\<close>
  in any world, and a request with the method \<open>ping\<close>.
\<close>

theorem handle_request_errors_witness:
  "(\<forall>W. handle_request W
          (JObj [(lit ''method'', JStr (lit ''tools/call'')),
                 (lit ''params'', JObj [(lit ''name'', JStr (lit ''get_dataset'')),
                                        (lit ''arguments'', JObj [])])]) =
        Inr (Error JNull (-32603) (lit ''Tool execution failed: '' @ key_error (lit ''dataset_id'')))) \<and>
   (\<forall>W. handle_request W (JObj [(lit ''id'', JInt 7), (lit ''method'', JStr (lit ''ping''))]) =
        Inr (Error (JInt 7) (-32601) (lit ''Method not found: '' @ str_of W (JStr (lit ''ping'')))))"
proof (intro conjI allI)
  fix W :: world
  let ?req = "[(lit ''method'', JStr (lit ''tools/call'')),
               (lit ''params'', JObj [(lit ''name'', JStr (lit ''get_dataset'')),
                                      (lit ''arguments'', JObj [])])]"
  show "handle_request W (JObj ?req) =
        Inr (Error JNull (-32603) (lit ''Tool execution failed: '' @ key_error (lit ''dataset_id'')))"
    using handle_request_errors[of ?req W
            "[(lit ''name'', JStr (lit ''get_dataset'')), (lit ''arguments'', JObj [])]"
            "''get_dataset''" "[''dataset_id'']" "''dataset_id''" "[]"]
    by (simp add: method_of_def params_of_def id_of_def field_def lit_inj tool_catalog_def)
  show "handle_request W (JObj [(lit ''id'', JInt 7), (lit ''method'', JStr (lit ''ping''))]) =
        Inr (Error (JInt 7) (-32601) (lit ''Method not found: '' @ str_of W (JStr (lit ''ping''))))"
    using handle_request_errors[of "[(lit ''id'', JInt 7), (lit ''method'', JStr (lit ''ping''))]" W]
    by (simp add: method_of_def id_of_def field_def lit_inj is_name_in_def method_names_def)
qed

subsection \<open>The analysis of a dataset\<close>

lemma keyword_pass_u_ok:
  assumes "\<forall>c\<in>set (map fst tbl). map_of WOO_CATEGORIES c \<noteq> None"
  shows "\<exists>a. keyword_pass_u tbl K = Inr a \<and> set (map category_id a) \<subseteq> set (map fst tbl)"
  using assms
proof (induction tbl)
  case Nil
  show ?case by simp
next
  case (Cons e tbl)
  obtain cat_id cks where e: "e = (cat_id, cks)" by (cases e)
  from Cons obtain a where a: "keyword_pass_u tbl K = Inr a"
    "set (map category_id a) \<subseteq> set (map fst tbl)"
    by auto
  from Cons.prems e obtain nm where nm: "woo_category_name cat_id = Inr nm"
    by (auto simp: woo_category_name_def)
  show ?case
    using a e nm by (cases "find (\<lambda>kw. list_ex (\<lambda>ck. sublist (lit ck) kw) cks) K") auto
qed

lemma topic_pass_u_ok:
  "\<exists>b. topic_pass_u T = Inr b \<and> set (map category_id b) \<subseteq> {''4'', ''1e''}"
  by (auto simp: topic_pass_u_def topic_rule_u_def raise_bind_def woo_category_name_def
                 WOO_CATEGORIES_def)

lemma unique_suggestions_u_distinct:
  "distinct (map category_id (unique_suggestions_u seen ss)) \<and>
   set (map category_id (unique_suggestions_u seen ss)) \<subseteq> set (map category_id ss) - set seen"
proof (induction ss arbitrary: seen)
  case Nil
  show ?case by simp
next
  case (Cons s ss)
  show ?case using Cons[of seen] Cons[of "category_id s # seen"] by auto
qed

lemma suggest_woo_categories_u_ok:
  "\<exists>cats. suggest_woo_categories_u K T = Inr cats \<and> distinct (map category_id cats) \<and>
     set (map category_id cats) \<subseteq> set (map fst category_keywords)"
proof -
  obtain a where a: "keyword_pass_u category_keywords K = Inr a"
    "set (map category_id a) \<subseteq> set (map fst category_keywords)"
    using keyword_pass_u_ok[OF category_keywords_named] by blast
  obtain b where b: "topic_pass_u T = Inr b" "set (map category_id b) \<subseteq> {''4'', ''1e''}"
    using topic_pass_u_ok by blast
  have "{''4'', ''1e''} \<subseteq> set (map fst category_keywords)"
    by (simp add: category_keywords_def)
  with b(2) have "set (map category_id b) \<subseteq> set (map fst category_keywords)"
    by (rule subset_trans)
  with a(2) have "set (map category_id (a @ b)) \<subseteq> set (map fst category_keywords)"
    by simp
  then have ab: "set (map category_id (a @ b)) \<subseteq> set (map fst category_keywords)" .
  have u: "distinct (map category_id (unique_suggestions_u [] (a @ b)))"
    "set (map category_id (unique_suggestions_u [] (a @ b))) \<subseteq> set (map category_id (a @ b))"
    using unique_suggestions_u_distinct[of "[]" "a @ b"] by simp_all
  from u(2) ab
  have "set (map category_id (unique_suggestions_u [] (a @ b))) \<subseteq> set (map fst category_keywords)"
    by (rule subset_trans)
  moreover have "suggest_woo_categories_u K T = Inr (unique_suggestions_u [] (a @ b))"
    by (simp add: suggest_woo_categories_u_def raise_bind_def a(1) b(1))
  ultimately show ?thesis using u(1) by blast
qed

lemma length_categories_le:
  assumes "distinct (map category_id cats)"
    "set (map category_id cats) \<subseteq> set (map fst category_keywords)"
  shows "length cats \<le> 10"
proof -
  have "length cats = card (set (map category_id cats))"
    using assms(1) distinct_card[of "map category_id cats"] by simp
  also have "\<dots> \<le> card (set (map fst category_keywords))"
    using assms(2) by (intro card_mono) auto
  also have "\<dots> \<le> length (map fst category_keywords)" by (rule card_length)
  also have "\<dots> = 10" by (simp add: category_keywords_def)
  finally show ?thesis .
qed

lemma set_map_to_topics_u:
  assumes "set_order_ok ord"
  shows "set (map_to_topics_u ord K) =
     (\<Union>e \<in> {e \<in> set TOPIC_MAPPING. \<exists>kw\<in>set K. sublist (lit (fst e)) kw \<or> sublist kw (lit (fst e))}.
        lit ` set (snd e))"
  using assms unfolding map_to_topics_u_def set_order_ok_def
  by (auto simp: case_prod_beta)

lemma card_table_topics: "card (set (concat (map snd TOPIC_MAPPING))) = 39"
  by code_simp

lemma topics_in_table:
  assumes "set_order_ok ord"
  shows "set (map_to_topics_u ord K) \<subseteq> lit ` set (concat (map snd TOPIC_MAPPING))"
  unfolding set_map_to_topics_u[OF assms] by auto

lemma length_topics_le:
  assumes "set_order_ok ord"
  shows "length (map_to_topics_u ord K) \<le> 39"
proof -
  have d: "distinct (map_to_topics_u ord K)"
    using assms by (simp add: map_to_topics_u_def set_order_ok_def)
  have "card (set (map_to_topics_u ord K)) \<le> card (lit ` set (concat (map snd TOPIC_MAPPING)))"
    using topics_in_table[OF assms] by (intro card_mono) auto
  also have "\<dots> \<le> card (set (concat (map snd TOPIC_MAPPING)))"
    by (intro card_image_le) simp
  finally have "card (set (map_to_topics_u ord K)) \<le> 39"
    unfolding card_table_topics .
  with distinct_card[OF d] show ?thesis by simp
qed

lemma table_topics_lowercase:
  "\<forall>s\<in>set (concat (map snd TOPIC_MAPPING)). map lower_char s = s"
  by code_simp

lemma topics_lowercase:
  assumes "set_order_ok ord" "t \<in> set (map_to_topics_u ord K)"
  shows "lower U t = t"
proof -
  from topics_in_table[OF assms(1)] assms(2)
  have "t \<in> lit ` set (concat (map snd TOPIC_MAPPING))" by (rule subsetD)
  then obtain s where s: "s \<in> set (concat (map snd TOPIC_MAPPING))" "t = lit s"
    by (rule imageE)
  from table_topics_lowercase s(1) have "map lower_char s = s" by (rule bspec)
  with s(2) show ?thesis by (simp add: lower_lit)
qed

lemma suggest_woo_categories_u_total: "suggest_woo_categories_u K T \<noteq> Inl e"
  using suggest_woo_categories_u_ok[of K T] by auto

lemma woo_get_attr_Nil: "woo_get_attr [] k = JNull"
  by (simp add: woo_get_attr_def dict_get_def)

lemma py_join_joinable: "(\<exists>s. py_join I sep v = Inr s) \<longleftrightarrow> joinable v"
  by (cases v) (simp_all add: py_join_def joinable_def split: option.splits)

lemma analyze_dataset_not_dict:
  assumes "\<forall>kvs. d \<noteq> JObj kvs"
  shows "analyze_dataset I U ord d = Inl (no_get_msg I d)"
  using assms by (cases d) (simp_all add: analyze_dataset_def py_get_def raise_bind_def)

lemma analyze_dataset_attrs_not_dict:
  assumes "map_of kvs (lit ''attributes'') = Some v" "\<forall>a. v \<noteq> JObj a"
  shows "analyze_dataset I U ord (JObj kvs) = Inl (no_get_msg I v)"
  using assms by (cases v) (simp_all add: analyze_dataset_def py_get_def raise_bind_def woo_attr_def)

text \<open>The analysis of a \<open>dict\<close> whose attributes are the \<open>dict\<close> \<open>attrs\<close>.\<close>

lemma analyze_dataset_dict:
  assumes "(case map_of kvs (lit ''attributes'') of None \<Rightarrow> JObj [] | Some v \<Rightarrow> v) = JObj attrs"
  shows "analyze_dataset I U ord (JObj kvs) =
     raise_bind (py_join I (lit '' '') (py_or (woo_get_attr attrs (lit ''keyword'')) (JList []))) (\<lambda>joined.
       let text = formatted I (py_or (woo_get_attr attrs (lit ''title'')) (JStr [])) @ lit '' '' @
                  formatted I (py_or (woo_get_attr attrs (lit ''description'')) (JStr [])) @ lit '' '' @
                  joined;
           kws = extract_keywords U ord (Some text);
           tps = map_to_topics_u ord kws
       in raise_bind (suggest_woo_categories_u kws tps) (\<lambda>cats.
            Inr \<lparr>dataset_id = (case map_of kvs (lit ''id'') of None \<Rightarrow> JStr [] | Some v \<Rightarrow> v),
                 title = py_or (woo_get_attr attrs (lit ''title'')) (JStr []),
                 top_keywords = take 10 kws,
                 topics = tps,
                 woo_categories = cats,
                 woo_search_terms = generate_search_terms kws tps,
                 woo_index_url = UTRECHT_WOO_URL,
                 relevance_score = int (length tps) + int (length cats)\<rparr>))"
  using assms by (simp add: analyze_dataset_def py_get_def raise_bind_def woo_attr_def)

lemma analyze_dataset_returns:
  "(\<exists>r. analyze_dataset I U ord d = Inr r) \<longleftrightarrow> well_formed d"
proof (cases "\<exists>kvs. d = JObj kvs")
  case False
  then have "analyze_dataset I U ord d = Inl (no_get_msg I d)"
    by (intro analyze_dataset_not_dict) simp
  moreover from False have "\<not> well_formed d"
    by (cases d) (simp_all add: well_formed_def)
  ultimately show ?thesis by simp
next
  case True
  then obtain kvs where d: "d = JObj kvs" by blast
  define v where "v = (case map_of kvs (lit ''attributes'') of None \<Rightarrow> JObj [] | Some v \<Rightarrow> v)"
  show ?thesis
  proof (cases "\<exists>attrs. v = JObj attrs")
    case False
    then obtain w where w: "map_of kvs (lit ''attributes'') = Some w" "w = v"
      by (auto simp: v_def split: option.splits)
    with False have "analyze_dataset I U ord d = Inl (no_get_msg I w)"
      unfolding d by (intro analyze_dataset_attrs_not_dict) simp_all
    moreover from False w have "\<not> well_formed d"
      unfolding d by (cases v) (simp_all add: well_formed_def)
    ultimately show ?thesis by simp
  next
    case True
    then obtain attrs where a: "v = JObj attrs" by blast
    let ?k = "py_or (woo_get_attr attrs (lit ''keyword'')) (JList [])"
    have wf: "well_formed d \<longleftrightarrow> joinable ?k"
      using a unfolding d v_def
      by (auto simp: well_formed_def woo_get_attr_Nil py_or_def joinable_def split: option.splits)
    have "(\<exists>r. analyze_dataset I U ord d = Inr r) \<longleftrightarrow> (\<exists>s. py_join I (lit '' '') ?k = Inr s)"
      unfolding d analyze_dataset_dict[OF a[unfolded v_def]]
      using suggest_woo_categories_u_ok
      by (cases "py_join I (lit '' '') ?k") (auto simp: raise_bind_def Let_def suggest_woo_categories_u_total split: sum.splits)
    with wf show ?thesis by (simp add: py_join_joinable)
  qed
qed


lemma well_formed_dict:
  assumes "well_formed d"
  obtains kvs attrs where "d = JObj kvs"
    "(case map_of kvs (lit ''attributes'') of None \<Rightarrow> JObj [] | Some v \<Rightarrow> v) = JObj attrs"
proof (cases d)
  case (JObj kvs)
  show ?thesis
  proof (cases "map_of kvs (lit ''attributes'')")
    case None
    with JObj that show ?thesis by simp
  next
    case (Some v)
    with assms JObj obtain attrs where "v = JObj attrs"
      by (cases v) (simp_all add: well_formed_def)
    with JObj Some that show ?thesis by simp
  qed
qed (use assms in \<open>simp_all add: well_formed_def\<close>)

lemma analyze_dataset_result:
  assumes "analyze_dataset I U ord d = Inr r"
  shows "\<exists>text. top_keywords r = take 10 (extract_keywords U ord (Some text)) \<and>
           topics r = map_to_topics_u ord (extract_keywords U ord (Some text)) \<and>
           suggest_woo_categories_u (extract_keywords U ord (Some text)) (topics r) =
             Inr (woo_categories r) \<and>
           woo_search_terms r = generate_search_terms (extract_keywords U ord (Some text)) (topics r) \<and>
           relevance_score r = int (length (topics r)) + int (length (woo_categories r))"
proof -
  from assms have "well_formed d" using analyze_dataset_returns by blast
  then obtain kvs attrs where d: "d = JObj kvs"
    and a: "(case map_of kvs (lit ''attributes'') of None \<Rightarrow> JObj [] | Some v \<Rightarrow> v) = JObj attrs"
    by (rule well_formed_dict)
  from assms show ?thesis
    unfolding d analyze_dataset_dict[OF a]
    by (auto simp: raise_bind_def Let_def split: sum.splits)
qed

lemma relevance_score_le:
  assumes "set_order_ok ord" "analyze_dataset I U ord d = Inr r"
  shows "distinct (topics r) \<and> distinct (map category_id (woo_categories r)) \<and>
         length (topics r) \<le> 39 \<and> length (woo_categories r) \<le> 10 \<and> relevance_score r \<le> 49"
proof -
  from analyze_dataset_result[OF assms(2)] obtain body where
    t: "topics r = map_to_topics_u ord (extract_keywords U ord (Some body))" and
    c: "suggest_woo_categories_u (extract_keywords U ord (Some body)) (topics r) =
          Inr (woo_categories r)" and
    s: "relevance_score r = int (length (topics r)) + int (length (woo_categories r))"
    by blast
  have dt: "distinct (topics r)"
    using assms(1) unfolding t by (simp add: map_to_topics_u_def set_order_ok_def)
  have lt: "length (topics r) \<le> 39"
    unfolding t by (rule length_topics_le[OF assms(1)])
  from suggest_woo_categories_u_ok[of "extract_keywords U ord (Some body)" "topics r"] c
  have dc: "distinct (map category_id (woo_categories r))"
    and sc: "set (map category_id (woo_categories r)) \<subseteq> set (map fst category_keywords)"
    by auto
  have lc: "length (woo_categories r) \<le> 10"
    using dc sc by (rule length_categories_le)
  from dt dc lt lc s show ?thesis by simp
qed

text \<open>
  Claim C2, as amended. On every well-formed record, and on no other, \<open>analyze_dataset\<close>
  returns a result. In a result the topics are those mapped from the keywords extracted
  from the text of the record and the categories those suggested for them, the score is
  the number of topics plus the number of categories, and the keywords field holds the
  first 10 of the enumeration of the keywords. No topic and no category is counted twice.
  The score is never negative; it can exceed 10, but not 49: the topic table names 39
  topics and there are 10 categories.
\<close>

theorem analyze_dataset_score:
  assumes "set_order_ok ord"
  shows "((\<exists>r. analyze_dataset I U ord d = Inr r) \<longleftrightarrow> well_formed d) \<and>
     (\<forall>r. analyze_dataset I U ord d = Inr r \<longrightarrow>
        (\<exists>text. top_keywords r = take 10 (extract_keywords U ord (Some text)) \<and>
           topics r = map_to_topics_u ord (extract_keywords U ord (Some text)) \<and>
           suggest_woo_categories_u (extract_keywords U ord (Some text)) (topics r) =
             Inr (woo_categories r)) \<and>
        relevance_score r = int (length (topics r)) + int (length (woo_categories r)) \<and>
        distinct (topics r) \<and> distinct (map category_id (woo_categories r)) \<and>
        0 \<le> relevance_score r \<and> relevance_score r \<le> 49 \<and>
        length (top_keywords r) \<le> 10)"
proof (intro conjI allI impI)
  show "(\<exists>r. analyze_dataset I U ord d = Inr r) \<longleftrightarrow> well_formed d"
    by (rule analyze_dataset_returns)
next
  fix r assume r: "analyze_dataset I U ord d = Inr r"
  from analyze_dataset_result[OF r] obtain body where
    t: "top_keywords r = take 10 (extract_keywords U ord (Some body))"
       "topics r = map_to_topics_u ord (extract_keywords U ord (Some body))"
       "suggest_woo_categories_u (extract_keywords U ord (Some body)) (topics r) =
          Inr (woo_categories r)"
       "relevance_score r = int (length (topics r)) + int (length (woo_categories r))"
    by blast
  from t(1-3) show "\<exists>text. top_keywords r = take 10 (extract_keywords U ord (Some text)) \<and>
           topics r = map_to_topics_u ord (extract_keywords U ord (Some text)) \<and>
           suggest_woo_categories_u (extract_keywords U ord (Some text)) (topics r) =
             Inr (woo_categories r)"
    by blast
  show "relevance_score r = int (length (topics r)) + int (length (woo_categories r))"
    by (rule t(4))
  show "0 \<le> relevance_score r" unfolding t(4) by simp
  show "length (top_keywords r) \<le> 10" unfolding t(1) by simp
  from relevance_score_le[OF assms r]
  show "distinct (topics r)" "distinct (map category_id (woo_categories r))"
    "relevance_score r \<le> 49"
    by simp_all
qed

text \<open>
  The record \<open>{"attributes": {"title": "Subsidiebeleid afvalwater"}}\<close>, with the order of
  first insertion: 12 topics and 2 categories, a score of 14.
\<close>

lemma analyze_dataset_example:
  "analyze_dataset silent plain_beyond first_seen
     (JObj [(lit ''attributes'', JObj [(lit ''title'', JStr (lit ''Subsidiebeleid afvalwater''))])]) =
   Inr \<lparr>dataset_id = JStr [],
        title = JStr (lit ''Subsidiebeleid afvalwater''),
        top_keywords = [lit ''subsidiebeleid'', lit ''afvalwater''],
        topics = [lit financien, lit ''beleid'', lit ''ondersteuning'', lit ''bestuur'',
                  lit ''regelgeving'', lit ''strategie'', lit ''milieu'', lit ''openbare ruimte'',
                  lit ''beheer'', lit ''huisvesting'', lit ''waterbeheer'', lit ''infrastructuur''],
        woo_categories =
          [\<lparr>category_id = ''1e'', category_name = ''Beschikkingen over aanvragen om een subsidie'',
             why = lit ''Bevat keyword: subsidiebeleid''\<rparr>,
           \<lparr>category_id = ''4'', category_name = ''Regelingen en beleidsnota'' @ [CHR 0x27] @ ''s'',
             why = lit ''Bevat keyword: subsidiebeleid''\<rparr>],
        woo_search_terms = [lit ''subsidiebeleid'', lit ''afvalwater'', lit financien, lit ''beleid'',
                            lit ''ondersteuning''],
        woo_index_url = UTRECHT_WOO_URL,
        relevance_score = 14\<rparr>"
  by code_simp

theorem analyze_dataset_score_witness:
  "set_order_ok (first_seen :: ustr list \<Rightarrow> ustr list) \<and>
   well_formed (JObj [(lit ''attributes'', JObj [(lit ''title'', JStr (lit ''Subsidiebeleid afvalwater''))])]) \<and>
   (\<exists>r. analyze_dataset silent plain_beyond first_seen
          (JObj [(lit ''attributes'', JObj [(lit ''title'', JStr (lit ''Subsidiebeleid afvalwater''))])]) = Inr r \<and>
        length (topics r) = 12 \<and> length (woo_categories r) = 2 \<and> relevance_score r = 14 \<and>
        length (top_keywords r) = 2)"
  using analyze_dataset_score[OF first_seen_ok, of silent plain_beyond
          "JObj [(lit ''attributes'', JObj [(lit ''title'', JStr (lit ''Subsidiebeleid afvalwater''))])]"]
        first_seen_ok
  unfolding analyze_dataset_example by simp

text \<open>
  The claim as it was stated says that the score has no fixed upper bound. It has one.
\<close>

theorem relevance_score_bounded:
  "\<not> (\<forall>B. \<exists>(I :: interp) U ord d r.
         set_order_ok ord \<and> analyze_dataset I U ord d = Inr r \<and> B < relevance_score r)"
proof
  assume "\<forall>B. \<exists>(I :: interp) U ord d r.
         set_order_ok ord \<and> analyze_dataset I U ord d = Inr r \<and> B < relevance_score r"
  then obtain I :: interp and U ord d r where
    "set_order_ok ord" "analyze_dataset I U ord d = Inr r" "49 < relevance_score r"
    by blast
  with relevance_score_le[of ord I U d r] show False by simp
qed

(*NEXT*)

end
